theory Spec2Isabelle
  imports Complex_Main
begin

section \<open>Python values used by \<^verbatim>\<open>backend/core/story_generator.py\<close>\<close>

text \<open>
  Python strings are modelled as \<^typ>\<open>string\<close>, one \<^typ>\<open>char\<close> per character of the
  text. The two characters that cannot be written inside a string literal here are
  given names.
\<close>

abbreviation dquote :: char where
  "dquote \<equiv> CHR 0x22"

abbreviation backslash :: char where
  "backslash \<equiv> CHR 0x5C"

text \<open>
  Exceptions are values. Every exception carries what \<^verbatim>\<open>str(e)\<close> needs: a message,
  or for \<^verbatim>\<open>KeyError\<close> the missing key.
\<close>

datatype exn =
    Exception string
  | KeyError string

text \<open>\<^verbatim>\<open>str(e)\<close>; \<^verbatim>\<open>str(KeyError('content'))\<close> is the key in single quotes.\<close>

fun str_exn :: "exn \<Rightarrow> string" where
  "str_exn (Exception m) = m"
| "str_exn (KeyError k) = [CHR 0x27] @ k @ [CHR 0x27]"

text \<open>\<^verbatim>\<open>text.find(c)\<close>: the index of the first occurrence of \<open>c\<close>, or \<open>-1\<close>.\<close>

definition str_find :: "string \<Rightarrow> char \<Rightarrow> int" where
  "str_find text c =
     (if c \<in> set text then int (length (takeWhile (\<lambda>x. x \<noteq> c) text)) else - 1)"

text \<open>\<^verbatim>\<open>text[a:b]\<close> for indices \<open>0 \<le> a\<close> and \<open>0 \<le> b\<close>.\<close>

definition slice :: "string \<Rightarrow> nat \<Rightarrow> nat \<Rightarrow> string" where
  "slice text a b = take (b - a) (drop a text)"

section \<open>\<^verbatim>\<open>StoryGenerator._extract_json\<close>\<close>

text \<open>
  The loop of lines 34 to 61, \<^verbatim>\<open>for i in range(start_idx, len(text))\<close>, over the
  characters \<^verbatim>\<open>text[start_idx:]\<close> that are still to be read, with the loop variables
  \<open>depth\<close>, \<open>in_string\<close> and \<open>escape_next\<close>. The loop is left in two ways only: at the
  first index where \<open>depth\<close> is back at zero beyond \<open>start_idx\<close> (lines 55 to 61, which
  return or raise at once), or at the end of the text. The function returns that index,
  or \<open>None\<close> when the text ends first.
\<close>

fun scan_braces :: "nat \<Rightarrow> nat \<Rightarrow> string \<Rightarrow> int \<Rightarrow> bool \<Rightarrow> bool \<Rightarrow> nat option" where
  "scan_braces start_idx i [] depth in_string escape_next = None"
| "scan_braces start_idx i (char # rest) depth in_string escape_next =
     (if char = backslash \<and> \<not> escape_next
      then scan_braces start_idx (i + 1) rest depth in_string True
      else
        let in_string = (if char = dquote \<and> \<not> escape_next then \<not> in_string else in_string)
        in if \<not> in_string
           then
             let depth = (if char = CHR ''{'' then depth + 1
                          else if char = CHR ''}'' then depth - 1
                          else depth)
             in if depth = 0 \<and> i > start_idx then Some i
                else scan_braces start_idx (i + 1) rest depth in_string False
           else scan_braces start_idx (i + 1) rest depth in_string False)"

text \<open>
  The body of the \<^verbatim>\<open>try\<close> block (lines 23 to 65). \<open>loads\<close> is \<^verbatim>\<open>json.loads\<close> of the
  standard library, a parameter: \<open>Inl e\<close> when it raises \<open>e\<close>, \<open>Inr v\<close> when it returns
  the decoded value \<open>v\<close>, which line 60 discards. The source only prints the
  exceptions of \<^verbatim>\<open>json.loads\<close>, so their type is left open.
\<close>

definition extract_json_try :: "(string \<Rightarrow> 'e + 'j) \<Rightarrow> string \<Rightarrow> 'e + string" where
  "extract_json_try loads text =
     (let start_idx = str_find text (CHR ''{'') in
      if start_idx = - 1 then Inr text
      else
        (case scan_braces (nat start_idx) (nat start_idx) (drop (nat start_idx) text)
                0 False False of
           Some i \<Rightarrow>
             (let json_str = slice text (nat start_idx) (i + 1) in
              case loads json_str of
                Inl e \<Rightarrow> Inl e
              | Inr v \<Rightarrow> Inr json_str)
         | None \<Rightarrow> Inr text))"

text \<open>
  \<^verbatim>\<open>_extract_json\<close> (lines 16 to 69): the \<^verbatim>\<open>try\<close> block under its handler
  \<^verbatim>\<open>except Exception as e: ... return text\<close> (lines 67 to 69). \<open>Inl\<close> would be an
  exception that leaves the method; the result is typed for any kind of exception the
  caller handles.
\<close>

definition extract_json :: "(string \<Rightarrow> 'e + 'j) \<Rightarrow> string \<Rightarrow> 'x + string" where
  "extract_json loads text =
     (case extract_json_try loads text of
        Inl e \<Rightarrow> Inr text
      | Inr json_str \<Rightarrow> Inr json_str)"

text \<open>
  The candidate the scan locates: the substring from the first opening brace to the
  index where the depth is back at zero, whether or not it is valid JSON.
\<close>

definition candidate :: "string \<Rightarrow> string option" where
  "candidate text =
     (let start_idx = str_find text (CHR ''{'') in
      if start_idx = - 1 then None
      else map_option (\<lambda>i. slice text (nat start_idx) (i + 1))
             (scan_braces (nat start_idx) (nat start_idx) (drop (nat start_idx) text)
                0 False False))"

section \<open>Balanced objects\<close>

text \<open>
  A balanced object, stated without the scan. The characters between the quotes of a string literal are ordinary characters and escape pairs: a
  backslash and the character it escapes.
\<close>

inductive string_chars :: "string \<Rightarrow> bool" where
  sc_end: "string_chars []"
| sc_char: "c \<noteq> dquote \<Longrightarrow> c \<noteq> backslash \<Longrightarrow> string_chars cs \<Longrightarrow> string_chars (c # cs)"
| sc_escape: "string_chars cs \<Longrightarrow> string_chars (backslash # e # cs)"

text \<open>
  A balanced text is a sequence of ordinary characters, string literals and balanced
  texts in braces. Braces inside a string literal are part of the literal.
\<close>

inductive balanced :: "string \<Rightarrow> bool" where
  bal_end: "balanced []"
| bal_char: "c \<noteq> CHR ''{'' \<Longrightarrow> c \<noteq> CHR ''}'' \<Longrightarrow> c \<noteq> dquote \<Longrightarrow> c \<noteq> backslash \<Longrightarrow>
     balanced cs \<Longrightarrow> balanced (c # cs)"
| bal_string: "string_chars s \<Longrightarrow> balanced cs \<Longrightarrow> balanced (dquote # s @ dquote # cs)"
| bal_braces: "balanced b \<Longrightarrow> balanced cs \<Longrightarrow> balanced (CHR ''{'' # b @ CHR ''}'' # cs)"

definition balanced_object :: "string \<Rightarrow> bool" where
  "balanced_object obj \<longleftrightarrow> (\<exists>b. obj = CHR ''{'' # b @ ''}'' \<and> balanced b)"

text \<open>
  The characters after an opening quote when the literal is never closed: ordinary
  characters and escape pairs, with at most a single backslash at the end.
\<close>

inductive open_literal :: "string \<Rightarrow> bool" where
  ol_chars: "string_chars s \<Longrightarrow> open_literal s"
| ol_backslash: "string_chars s \<Longrightarrow> open_literal (s @ [backslash])"

text \<open>
  A text after an opening brace that never closes the brace: balanced as far as it
  goes, or ending inside a string literal, or ending after an inner opening brace that
  is itself never closed.
\<close>

inductive left_open :: "string \<Rightarrow> bool" where
  lo_balanced: "balanced b \<Longrightarrow> left_open b"
| lo_literal: "balanced b \<Longrightarrow> open_literal s \<Longrightarrow> left_open (b @ dquote # s)"
| lo_braces: "balanced b \<Longrightarrow> left_open u \<Longrightarrow> left_open (b @ CHR ''{'' # u)"


section \<open>A model of \<^verbatim>\<open>json.loads\<close>\<close>

text \<open>
  \<^verbatim>\<open>json.loads\<close> is a parameter of everything below. For evaluation on concrete texts
  this section gives a recogniser of the texts it accepts: one JSON value (object, array,
  string, number, \<^verbatim>\<open>true\<close>, \<^verbatim>\<open>false\<close>, \<^verbatim>\<open>null\<close>, and Python's \<^verbatim>\<open>NaN\<close>, \<^verbatim>\<open>Infinity\<close>,
  \<^verbatim>\<open>-Infinity\<close>) between optional whitespace, strings without raw control characters.
  It reads the text once, with the stack of the containers that are open. The decoded
  value and the message of the error are not modelled. CPython also refuses an integer
  of more than 4300 digits and a nesting beyond the recursion limit of the interpreter;
  the recogniser has neither limit, so it stands for \<^verbatim>\<open>json.loads\<close> on texts below them
  only, as the examples are.
\<close>

datatype container = InObject | InArray

datatype number_state = Minus | Zero | Digits | Dot | Frac | Exp | ExpSign | ExpDigits

datatype json_state =
    Value | ValueOrEnd | KeyOrEnd | Key | Colon | After
  | InString bool | Escape bool | Hex bool nat
  | Literal string
  | Number number_state

definition is_ws :: "char \<Rightarrow> bool" where
  "is_ws c \<longleftrightarrow> c = CHR '' '' \<or> c = CHR 0x09 \<or> c = CHR 0x0A \<or> c = CHR 0x0D"

definition is_digit :: "char \<Rightarrow> bool" where
  "is_digit c \<longleftrightarrow> c \<in> set ''0123456789''"

definition is_hex :: "char \<Rightarrow> bool" where
  "is_hex c \<longleftrightarrow> c \<in> set ''0123456789abcdefABCDEF''"

text \<open>After a complete value: a comma, the end of the open container, or whitespace.\<close>

definition after_value :: "container list \<Rightarrow> char \<Rightarrow> (container list \<times> json_state) option" where
  "after_value stack c =
     (if is_ws c then Some (stack, After)
      else case stack of
        [] \<Rightarrow> None
      | InObject # up \<Rightarrow>
          (if c = CHR '','' then Some (stack, Key)
           else if c = CHR ''}'' then Some (up, After) else None)
      | InArray # up \<Rightarrow>
          (if c = CHR '','' then Some (stack, Value)
           else if c = CHR '']'' then Some (up, After) else None))"

text \<open>The first character of a value.\<close>

definition start_value :: "container list \<Rightarrow> char \<Rightarrow> (container list \<times> json_state) option" where
  "start_value stack c =
     (if c = CHR ''{'' then Some (InObject # stack, KeyOrEnd)
      else if c = CHR ''['' then Some (InArray # stack, ValueOrEnd)
      else if c = dquote then Some (stack, InString False)
      else if c = CHR ''-'' then Some (stack, Number Minus)
      else if c = CHR ''0'' then Some (stack, Number Zero)
      else if is_digit c then Some (stack, Number Digits)
      else if c = CHR ''t'' then Some (stack, Literal ''rue'')
      else if c = CHR ''f'' then Some (stack, Literal ''alse'')
      else if c = CHR ''n'' then Some (stack, Literal ''ull'')
      else if c = CHR ''N'' then Some (stack, Literal ''aN'')
      else if c = CHR ''I'' then Some (stack, Literal ''nfinity'')
      else None)"

text \<open>
  Inside a number \<^verbatim>\<open>-?(0|[1-9][0-9]*)(.[0-9]+)?([eE][-+]?[0-9]+)?\<close>; a character that
  does not continue a complete number is read as the character after a value.
\<close>

fun number_step ::
  "container list \<Rightarrow> number_state \<Rightarrow> char \<Rightarrow> (container list \<times> json_state) option" where
  "number_step stack Minus c =
     (if c = CHR ''0'' then Some (stack, Number Zero)
      else if is_digit c then Some (stack, Number Digits)
      else if c = CHR ''I'' then Some (stack, Literal ''nfinity'')
      else None)"
| "number_step stack Zero c =
     (if c = CHR ''.'' then Some (stack, Number Dot)
      else if c = CHR ''e'' \<or> c = CHR ''E'' then Some (stack, Number Exp)
      else after_value stack c)"
| "number_step stack Digits c =
     (if is_digit c then Some (stack, Number Digits)
      else if c = CHR ''.'' then Some (stack, Number Dot)
      else if c = CHR ''e'' \<or> c = CHR ''E'' then Some (stack, Number Exp)
      else after_value stack c)"
| "number_step stack Dot c = (if is_digit c then Some (stack, Number Frac) else None)"
| "number_step stack Frac c =
     (if is_digit c then Some (stack, Number Frac)
      else if c = CHR ''e'' \<or> c = CHR ''E'' then Some (stack, Number Exp)
      else after_value stack c)"
| "number_step stack Exp c =
     (if c = CHR ''+'' \<or> c = CHR ''-'' then Some (stack, Number ExpSign)
      else if is_digit c then Some (stack, Number ExpDigits)
      else None)"
| "number_step stack ExpSign c = (if is_digit c then Some (stack, Number ExpDigits) else None)"
| "number_step stack ExpDigits c =
     (if is_digit c then Some (stack, Number ExpDigits) else after_value stack c)"

text \<open>
  One character. \<open>InString k\<close>, \<open>Escape k\<close> and \<open>Hex k n\<close> are the states inside a string
  literal (\<open>k\<close>: the literal is a key of an object), after a backslash, and with \<open>n\<close>
  hexadecimal digits of a four-digit escape still to read.
\<close>

fun json_step ::
  "container list \<Rightarrow> json_state \<Rightarrow> char \<Rightarrow> (container list \<times> json_state) option" where
  "json_step stack Value c = (if is_ws c then Some (stack, Value) else start_value stack c)"
| "json_step stack ValueOrEnd c =
     (if is_ws c then Some (stack, ValueOrEnd)
      else if c = CHR '']'' then Some (tl stack, After)
      else start_value stack c)"
| "json_step stack KeyOrEnd c =
     (if is_ws c then Some (stack, KeyOrEnd)
      else if c = dquote then Some (stack, InString True)
      else if c = CHR ''}'' then Some (tl stack, After)
      else None)"
| "json_step stack Key c =
     (if is_ws c then Some (stack, Key)
      else if c = dquote then Some (stack, InString True)
      else None)"
| "json_step stack Colon c =
     (if is_ws c then Some (stack, Colon)
      else if c = CHR '':'' then Some (stack, Value)
      else None)"
| "json_step stack After c = after_value stack c"
| "json_step stack (InString k) c =
     (if c = dquote then Some (stack, if k then Colon else After)
      else if c = backslash then Some (stack, Escape k)
      else if (of_char c :: nat) < 32 then None
      else Some (stack, InString k))"
| "json_step stack (Escape k) c =
     (if c = CHR ''u'' then Some (stack, Hex k 4)
      else if c = dquote \<or> c = backslash \<or> c \<in> set ''/bfnrt'' then Some (stack, InString k)
      else None)"
| "json_step stack (Hex k n) c =
     (if is_hex c then Some (stack, if n \<le> 1 then InString k else Hex k (n - 1)) else None)"
| "json_step stack (Literal l) c =
     (case l of
        [] \<Rightarrow> None
      | x # xs \<Rightarrow> if c = x then Some (stack, if xs = [] then After else Literal xs) else None)"
| "json_step stack (Number n) c = number_step stack n c"

fun json_run ::
  "container list \<Rightarrow> json_state \<Rightarrow> string \<Rightarrow> (container list \<times> json_state) option" where
  "json_run stack s [] = Some (stack, s)"
| "json_run stack s (c # cs) =
     (case json_step stack s c of
        None \<Rightarrow> None
      | Some (stack', s') \<Rightarrow> json_run stack' s' cs)"

text \<open>The text is accepted when it ends after one complete value, no container open.\<close>

definition json_valid :: "string \<Rightarrow> bool" where
  "json_valid text =
     (case json_run [] Value text of
        Some ([], After) \<Rightarrow> True
      | Some ([], Number n) \<Rightarrow> n = Zero \<or> n = Digits \<or> n = Frac \<or> n = ExpDigits
      | _ \<Rightarrow> False)"

datatype decode_error = JSONDecodeError

definition json_loads_model :: "string \<Rightarrow> decode_error + unit" where
  "json_loads_model text = (if json_valid text then Inr () else Inl JSONDecodeError)"

section \<open>\<^verbatim>\<open>StoryGenerator._call_gemini_api\<close>\<close>

text \<open>
  The request of lines 76 to 95: the URL, the prompt as the text of the one part of the
  one user content, the fixed generation configuration and the timeout in seconds.
\<close>

record generation_config =
  temperature :: rat
  topK :: nat
  topP :: rat
  maxOutputTokens :: nat

record request =
  url :: string
  role :: string
  prompt_text :: string
  generationConfig :: generation_config
  timeout :: nat

text \<open>
  The decoded body of a 2xx response (\<^verbatim>\<open>response.json()\<close>), with the shape the method
  reads: each key it looks up is present (\<open>Some\<close>) or absent (\<open>None\<close>).
  \<open>Part t\<close> is an element of \<^verbatim>\<open>parts\<close> with \<open>t\<close> under \<^verbatim>\<open>'text'\<close>, \<open>Content ps\<close> a
  \<^verbatim>\<open>content\<close> object with \<open>ps\<close> under \<^verbatim>\<open>'parts'\<close>, \<open>Candidate c\<close> an element of
  \<^verbatim>\<open>candidates\<close> with \<open>c\<close> under \<^verbatim>\<open>'content'\<close>, \<open>ErrorObject m\<close> the object under
  \<^verbatim>\<open>'error'\<close> with \<open>m\<close> under \<^verbatim>\<open>'message'\<close>.
\<close>

datatype part = Part "string option"

datatype content_object = Content "part list option"

datatype candidate_object = Candidate "content_object option"

datatype error_object = ErrorObject "string option"

record response_json =
  candidates :: "candidate_object list option"
  error :: "error_object option"

text \<open>
  What lines 95 to 98 give: a \<^verbatim>\<open>RequestException\<close> with its message (no connection, a
  timeout, a status that \<^verbatim>\<open>raise_for_status\<close> refuses, a body that is not JSON), or the
  decoded body of a 2xx response.
\<close>

datatype http_result = Raised string | Response response_json

text \<open>
  Lines 101 to 104, up to the text of the first part of the first candidate: \<open>Inr None\<close>
  when one of the two conditions fails, \<open>Inl\<close> the \<^verbatim>\<open>KeyError\<close> of a lookup of a missing
  key.
\<close>

definition first_candidate_text :: "response_json \<Rightarrow> exn + string option" where
  "first_candidate_text response_json =
     (case candidates response_json of
        Some (Candidate content # other_candidates) \<Rightarrow>
          (case content of
             None \<Rightarrow> Inl (KeyError ''content'')
           | Some (Content parts) \<Rightarrow>
               (case parts of
                  Some (Part text # other_parts) \<Rightarrow>
                    (case text of
                       None \<Rightarrow> Inl (KeyError ''text'')
                     | Some t \<Rightarrow> Inr (Some t))
                | _ \<Rightarrow> Inr None))
      | _ \<Rightarrow> Inr None)"

text \<open>Lines 101 to 117, the body of the \<^verbatim>\<open>try\<close> block after the response is decoded.\<close>

definition read_response :: "(string \<Rightarrow> 'e + 'j) \<Rightarrow> response_json \<Rightarrow> exn + string" where
  "read_response loads response_json =
     (case first_candidate_text response_json of
        Inl e \<Rightarrow> Inl e
      | Inr (Some text) \<Rightarrow> extract_json loads text
      | Inr None \<Rightarrow>
          (case error response_json of
             Some (ErrorObject message) \<Rightarrow>
               (let error_msg = (case message of Some m \<Rightarrow> m | None \<Rightarrow> ''Unknown API error'')
                in Inl (Exception (''Gemini API error: '' @ error_msg)))
           | None \<Rightarrow> Inr ''No valid response from Gemini API''))"

text \<open>
  \<^verbatim>\<open>_call_gemini_api\<close> (lines 72 to 126). \<open>api_key\<close> is \<^verbatim>\<open>settings.GOOGLE_API_KEY\<close> and
  \<open>post\<close> is the network: what \<^verbatim>\<open>requests.post\<close>, \<^verbatim>\<open>raise_for_status\<close> and
  \<^verbatim>\<open>response.json()\<close> give for a request. The second handler (lines 123 to 126) also
  catches the exception that line 114 raises.
\<close>

definition gemini_request :: "string \<Rightarrow> string \<Rightarrow> request" where
  "gemini_request api_key prompt =
     (let model = ''gemini-1.5-flash'' in
      \<lparr>url = ''https://generativelanguage.googleapis.com/v1beta/models/'' @ model
              @ '':generateContent?key='' @ api_key,
       role = ''user'',
       prompt_text = prompt,
       generationConfig = \<lparr>temperature = 7 / 10, topK = 40, topP = 95 / 100,
         maxOutputTokens = 8192\<rparr>,
       timeout = 60\<rparr>)"

definition call_gemini_api ::
  "string \<Rightarrow> (request \<Rightarrow> http_result) \<Rightarrow> (string \<Rightarrow> 'e + 'j) \<Rightarrow> string \<Rightarrow> exn + string" where
  "call_gemini_api api_key post loads prompt =
     (case post (gemini_request api_key prompt) of
        Raised m \<Rightarrow> Inl (Exception (''Network error when calling Gemini API: '' @ m))
      | Response response_json \<Rightarrow>
          (case read_response loads response_json of
             Inl e \<Rightarrow> Inl (Exception (''Error calling Gemini API: '' @ str_exn e))
           | Inr text \<Rightarrow> Inr text))"

section \<open>Described and persisted stories\<close>

text \<open>
  Modelled from the spec: the classes \<^verbatim>\<open>StoryLLMResponse\<close> and \<^verbatim>\<open>StoryNodeLLM\<close> of
  \<^verbatim>\<open>core.models\<close> are not among the sources. The description of a node has its content,
  its two flags and its options in order; an option has its text and the description of
  the next node.
\<close>

datatype StoryNodeLLM =
  StoryNodeLLM (content: string) (isEnding: bool) (isWinningEnding: bool)
    (options: "StoryOptionLLM list")
and StoryOptionLLM =
  StoryOptionLLM (text_llm: string) (nextNode: StoryNodeLLM)

record StoryLLMResponse =
  title :: string
  rootNode :: StoryNodeLLM

text \<open>
  Modelled from the spec: the classes \<^verbatim>\<open>Story\<close> and \<^verbatim>\<open>StoryNode\<close> of \<^verbatim>\<open>models.story\<close> are
  not among the sources. A row has the generated \<^verbatim>\<open>id\<close> and the columns the source sets;
  an entry of a node's options is the dictionary of lines 220 to 223.
\<close>

record Story =
  Story_id :: nat
  Story_title :: string
  session_id :: string

record option_entry =
  option_text :: string
  node_id :: nat

record StoryNode =
  StoryNode_id :: nat
  story_id :: nat
  StoryNode_content :: string
  is_root :: bool
  is_ending :: bool
  is_winning_ending :: bool
  StoryNode_options :: "option_entry list"

text \<open>
  The database session \<open>db\<close>: the rows of the two tables as the open transaction sees
  them, in the order they were added, the next generated identifiers, and the rows
  that are committed.
\<close>

record Session =
  stories :: "Story list"
  story_nodes :: "StoryNode list"
  next_story_id :: nat
  next_node_id :: nat
  committed_stories :: "Story list"
  committed_story_nodes :: "StoryNode list"

text \<open>\<^verbatim>\<open>db.add(story_db); db.flush()\<close>: the row gets the next identifier.\<close>

definition add_story :: "Session \<Rightarrow> string \<Rightarrow> string \<Rightarrow> Session \<times> Story" where
  "add_story db t s =
     (let story_db = \<lparr>Story_id = next_story_id db, Story_title = t, session_id = s\<rparr>
      in (db\<lparr>stories := stories db @ [story_db], next_story_id := next_story_id db + 1\<rparr>,
          story_db))"

text \<open>\<^verbatim>\<open>db.add(node); db.flush()\<close> for a new node with an empty options list.\<close>

definition add_node :: "Session \<Rightarrow> nat \<Rightarrow> string \<Rightarrow> bool \<Rightarrow> bool \<Rightarrow> bool \<Rightarrow> Session \<times> StoryNode" where
  "add_node db sid c r e w =
     (let node = \<lparr>StoryNode_id = next_node_id db, story_id = sid, StoryNode_content = c,
                   is_root = r, is_ending = e, is_winning_ending = w, StoryNode_options = []\<rparr>
      in (db\<lparr>story_nodes := story_nodes db @ [node], next_node_id := next_node_id db + 1\<rparr>,
          node))"

text \<open>\<^verbatim>\<open>node.options = options_list; db.flush()\<close>: the row of that identifier is updated.\<close>

definition set_options :: "Session \<Rightarrow> nat \<Rightarrow> option_entry list \<Rightarrow> Session" where
  "set_options db i options_list =
     db\<lparr>story_nodes :=
          map (\<lambda>n. if StoryNode_id n = i then n\<lparr>StoryNode_options := options_list\<rparr> else n)
            (story_nodes db)\<rparr>"

text \<open>\<^verbatim>\<open>db.commit()\<close>.\<close>

definition commit :: "Session \<Rightarrow> Session" where
  "commit db = db\<lparr>committed_stories := stories db, committed_story_nodes := story_nodes db\<rparr>"

section \<open>\<^verbatim>\<open>StoryGenerator._process_story_node\<close>\<close>

text \<open>
  \<^verbatim>\<open>_process_story_node\<close> (lines 198 to 228) and the loop of lines 212 to 223 over the
  options still to process, with \<open>options_list\<close> as built so far. A described node is an
  object with the four attributes, so each \<^verbatim>\<open>hasattr\<close> holds and \<^verbatim>\<open>nextNode\<close> is not a
  dictionary. The session is passed and returned; the node returned is the row with
  the options of line 225.
\<close>

fun process_story_node :: "Session \<Rightarrow> nat \<Rightarrow> StoryNodeLLM \<Rightarrow> bool \<Rightarrow> Session \<times> StoryNode"
and process_options ::
  "Session \<Rightarrow> nat \<Rightarrow> StoryOptionLLM list \<Rightarrow> option_entry list \<Rightarrow> Session \<times> option_entry list"
where
  "process_story_node db sid (StoryNodeLLM c e w opts) r =
     (let (db, node) = add_node db sid c r e w in
      if \<not> is_ending node \<and> opts \<noteq> []
      then
        let (db, options_list) = process_options db sid opts [];
            db = set_options db (StoryNode_id node) options_list
        in (db, node\<lparr>StoryNode_options := options_list\<rparr>)
      else (db, node))"
| "process_options db sid [] options_list = (db, options_list)"
| "process_options db sid (StoryOptionLLM t next_node # rest) options_list =
     (let (db, child_node) = process_story_node db sid next_node False
      in process_options db sid rest
           (options_list @ [\<lparr>option_text = t, node_id = StoryNode_id child_node\<rparr>]))"

section \<open>\<^verbatim>\<open>StoryGenerator.generate_story\<close>\<close>

text \<open>
  What the method takes from outside the file: \<^verbatim>\<open>settings.GOOGLE_API_KEY\<close>,
  \<^verbatim>\<open>STORY_PROMPT\<close> of \<^verbatim>\<open>core.prompts\<close>, the network, \<^verbatim>\<open>json.loads\<close>,
  \<^verbatim>\<open>StoryLLMResponse.model_validate\<close>, whose exceptions the source only prints, and
  \<^verbatim>\<open>str.capitalize\<close> of the interpreter with its Unicode case mappings.
\<close>

record ('e, 'j, 'v) environment =
  GOOGLE_API_KEY :: string
  STORY_PROMPT :: string
  requests_post :: "request \<Rightarrow> http_result"
  json_loads :: "string \<Rightarrow> 'e + 'j"
  model_validate :: "'j \<Rightarrow> 'v + StoryLLMResponse"
  capitalize :: "string \<Rightarrow> string"

text \<open>The prompt of line 131.\<close>

definition full_prompt :: "string \<Rightarrow> string \<Rightarrow> string" where
  \<open>full_prompt story_prompt theme =
     story_prompt @ ''\<newline>\<newline>Create the story with this theme: '' @ theme
     @ ''\<newline>\<newline>Please format your response as a JSON object with the following structure:\<newline>''
     @ ''{\<newline>  "title": "Story Title",\<newline>  "rootNode": {\<newline>''
     @ ''    "content": "Node content text",\<newline>    "isEnding": false,\<newline>''
     @ ''    "isWinningEnding": false,\<newline>    "options": [{\<newline>''
     @ ''      "text": "Option text",\<newline>      "nextNode": {\<newline>''
     @ ''        "content": "Next node content",\<newline>        "isEnding": false,\<newline>''
     @ ''        "isWinningEnding": false,\<newline>        "options": []\<newline>''
     @ ''      }\<newline>    }]\<newline>  }\<newline>}''\<close>

text \<open>
  The story of lines 150 to 158 and of lines 162 to 170; \<open>capitalized\<close> is
  \<^verbatim>\<open>theme.capitalize()\<close>.
\<close>

definition fallback_story :: "string \<Rightarrow> string \<Rightarrow> StoryLLMResponse" where
  "fallback_story capitalized response_text =
     \<lparr>title = capitalized @ '' Story'',
      rootNode = StoryNodeLLM (take 500 response_text) True True []\<rparr>"

text \<open>The story of lines 174 to 182 for the exception \<open>e\<close>.\<close>

definition error_story :: "string \<Rightarrow> exn \<Rightarrow> StoryLLMResponse" where
  "error_story capitalized e =
     \<lparr>title = ''Error: '' @ capitalized @ '' Story'',
      rootNode = StoryNodeLLM
        (''We encountered an error while generating your story: '' @ str_exn e)
        True False []\<rparr>"

text \<open>Lines 131 to 182: the description that is persisted.\<close>

definition story_structure :: "('e, 'j, 'v) environment \<Rightarrow> string \<Rightarrow> StoryLLMResponse" where
  "story_structure env theme =
     (case call_gemini_api (GOOGLE_API_KEY env) (requests_post env) (json_loads env)
             (full_prompt (STORY_PROMPT env) theme) of
        Inl e \<Rightarrow> error_story (capitalize env theme) e
      | Inr response_text \<Rightarrow>
          (case json_loads env response_text of
             Inl e \<Rightarrow> fallback_story (capitalize env theme) response_text
           | Inr json_data \<Rightarrow>
               (case model_validate env json_data of
                  Inl e \<Rightarrow> fallback_story (capitalize env theme) response_text
                | Inr validated \<Rightarrow> validated)))"

text \<open>
  \<^verbatim>\<open>generate_story\<close> (lines 129 to 195): the session after the call and the story
  returned.
\<close>

definition generate_story ::
  "('e, 'j, 'v) environment \<Rightarrow> Session \<Rightarrow> string \<Rightarrow> string \<Rightarrow> Session \<times> Story" where
  "generate_story env db sess theme =
     (let structure = story_structure env theme;
          (db, story_db) = add_story db (title structure) sess;
          root_node_data = rootNode structure;
          (db, node) = process_story_node db (Story_id story_db) root_node_data True;
          db = commit db
      in (db, story_db))"

section \<open>The states of the recogniser as the scan sees them\<close>

text \<open>
  For the proof that the scan finds every object that the recogniser accepts: the
  states inside a string literal, the state after a backslash, the number of objects
  that are open, and what holds of the stack and of the rest of a literal in a state
  that the recogniser reaches.
\<close>

fun in_string_state :: "json_state \<Rightarrow> bool" where
  "in_string_state (InString k) = True"
| "in_string_state (Escape k) = True"
| "in_string_state (Hex k n) = True"
| "in_string_state s = False"

fun escape_state :: "json_state \<Rightarrow> bool" where
  "escape_state (Escape k) = True"
| "escape_state s = False"

definition open_objects :: "container list \<Rightarrow> int" where
  "open_objects stack = int (length (filter (\<lambda>c. c = InObject) stack))"

definition structural :: "char \<Rightarrow> bool" where
  "structural c \<longleftrightarrow> c = CHR ''{'' \<or> c = CHR ''}'' \<or> c = dquote \<or> c = backslash"

fun state_fits :: "container list \<Rightarrow> json_state \<Rightarrow> bool" where
  "state_fits stack KeyOrEnd = (case stack of InObject # up \<Rightarrow> True | _ \<Rightarrow> False)"
| "state_fits stack ValueOrEnd = (case stack of InArray # up \<Rightarrow> True | _ \<Rightarrow> False)"
| "state_fits stack (Literal l) = list_all (\<lambda>c. \<not> structural c) l"
| "state_fits stack s = True"

section \<open>Notions the properties are stated with\<close>

text \<open>
  A payload in which lines 101 and 103 find no text and raise nothing: the candidates
  are absent or empty, or the content of the first candidate has no parts or an empty
  list of parts.
\<close>

definition no_candidate_text :: "response_json \<Rightarrow> bool" where
  "no_candidate_text r \<longleftrightarrow>
     candidates r = None \<or> candidates r = Some [] \<or>
     (\<exists>cs. candidates r = Some (Candidate (Some (Content None)) # cs)) \<or>
     (\<exists>cs. candidates r = Some (Candidate (Some (Content (Some []))) # cs))"

text \<open>
  The generated identifiers are fresh: every row of the session has an identifier below
  the next one.
\<close>

definition fresh_ids :: "Session \<Rightarrow> bool" where
  "fresh_ids db \<longleftrightarrow> list_all (\<lambda>n. StoryNode_id n < next_node_id db) (story_nodes db)"

text \<open>The number of nodes of a description.\<close>

fun count_nodes :: "StoryNodeLLM \<Rightarrow> nat"
and count_option_nodes :: "StoryOptionLLM list \<Rightarrow> nat" where
  "count_nodes (StoryNodeLLM c e w opts) = 1 + count_option_nodes opts"
| "count_option_nodes [] = 0"
| "count_option_nodes (StoryOptionLLM t next_node # rest) =
     count_nodes next_node + count_option_nodes rest"

text \<open>No ending node of the description carries options.\<close>

fun endings_are_leaves :: "StoryNodeLLM \<Rightarrow> bool"
and option_endings_are_leaves :: "StoryOptionLLM list \<Rightarrow> bool" where
  "endings_are_leaves (StoryNodeLLM c e w opts) =
     ((e \<longrightarrow> opts = []) \<and> option_endings_are_leaves opts)"
| "option_endings_are_leaves [] = True"
| "option_endings_are_leaves (StoryOptionLLM t next_node # rest) =
     (endings_are_leaves next_node \<and> option_endings_are_leaves rest)"

text \<open>
  The rows hold the described tree under the identifier \<open>i\<close>: exactly one row has the
  identifier, it has the content and the flags of the description, and its options are
  the described options in order, each with the text of the option and the identifier
  of a row that holds the described next node in the same way.
\<close>

fun persisted_as :: "StoryNode list \<Rightarrow> nat \<Rightarrow> StoryNodeLLM \<Rightarrow> bool"
and options_persisted_as :: "StoryNode list \<Rightarrow> option_entry list \<Rightarrow> StoryOptionLLM list \<Rightarrow> bool"
where
  "persisted_as rows i (StoryNodeLLM c e w opts) =
     (case filter (\<lambda>n. StoryNode_id n = i) rows of
        [n] \<Rightarrow> StoryNode_content n = c \<and> is_ending n = e \<and> is_winning_ending n = w \<and>
               options_persisted_as rows (StoryNode_options n) opts
      | _ \<Rightarrow> False)"
| "options_persisted_as rows [] [] = True"
| "options_persisted_as rows (entry # entries) (StoryOptionLLM t next_node # rest) =
     (option_text entry = t \<and> persisted_as rows (node_id entry) next_node \<and>
      options_persisted_as rows entries rest)"
| "options_persisted_as rows [] (opt # rest) = False"
| "options_persisted_as rows (entry # entries) [] = False"

section \<open>The rows a description becomes\<close>

text \<open>
  The rows that the persistence of a described node adds, as a function of the story,
  the first free identifier, the description and the root flag: the row of the node
  first, then the rows of the next nodes of its options in order, unless the node is an
  ending or has no options. \<open>option_rows\<close> gives the entries of the options list
  together with the rows. The proofs show that \<open>process_story_node\<close> adds exactly
  these rows.
\<close>

fun node_rows :: "nat \<Rightarrow> nat \<Rightarrow> StoryNodeLLM \<Rightarrow> bool \<Rightarrow> StoryNode list"
and option_rows :: "nat \<Rightarrow> nat \<Rightarrow> StoryOptionLLM list \<Rightarrow> option_entry list \<times> StoryNode list"
where
  "node_rows sid i (StoryNodeLLM c e w opts) r =
     \<lparr>StoryNode_id = i, story_id = sid, StoryNode_content = c, is_root = r, is_ending = e,
       is_winning_ending = w,
       StoryNode_options = (if \<not> e \<and> opts \<noteq> [] then fst (option_rows sid (i + 1) opts) else [])\<rparr>
     # (if \<not> e \<and> opts \<noteq> [] then snd (option_rows sid (i + 1) opts) else [])"
| "option_rows sid i [] = ([], [])"
| "option_rows sid i (StoryOptionLLM t next_node # rest) =
     (let rows = node_rows sid i next_node False;
          (entries, more_rows) = option_rows sid (i + length rows) rest
      in (\<lparr>option_text = t, node_id = i\<rparr> # entries, rows @ more_rows))"

section \<open>Examples\<close>

text \<open>A session that already holds one committed story with one node.\<close>

definition example_session :: Session where
  "example_session =
     \<lparr>stories = [\<lparr>Story_id = 1, Story_title = ''Forest Story'', session_id = ''session-0''\<rparr>],
      story_nodes = [\<lparr>StoryNode_id = 1, story_id = 1, StoryNode_content = ''The end.'',
        is_root = True, is_ending = True, is_winning_ending = True, StoryNode_options = []\<rparr>],
      next_story_id = 2,
      next_node_id = 2,
      committed_stories = [\<lparr>Story_id = 1, Story_title = ''Forest Story'', session_id = ''session-0''\<rparr>],
      committed_story_nodes = [\<lparr>StoryNode_id = 1, story_id = 1, StoryNode_content = ''The end.'',
        is_root = True, is_ending = True, is_winning_ending = True, StoryNode_options = []\<rparr>]\<rparr>"

text \<open>A 2xx response whose first candidate has \<open>t\<close> as the text of its first part.\<close>

definition text_response :: "string \<Rightarrow> http_result" where
  "text_response t =
     Response \<lparr>candidates = Some [Candidate (Some (Content (Some [Part (Some t)])))],
       error = None\<rparr>"

text \<open>
  \<^verbatim>\<open>str.capitalize\<close> on ASCII texts, for the examples, whose themes are ASCII: the first
  character in upper case, the others in lower case. On other texts it is not
  \<^verbatim>\<open>str.capitalize\<close>, which follows the Unicode case mappings.
\<close>

definition upper_char :: "char \<Rightarrow> char" where
  "upper_char c =
     (case map_of (zip ''abcdefghijklmnopqrstuvwxyz'' ''ABCDEFGHIJKLMNOPQRSTUVWXYZ'') c of
        Some u \<Rightarrow> u
      | None \<Rightarrow> c)"

definition lower_char :: "char \<Rightarrow> char" where
  "lower_char c =
     (case map_of (zip ''ABCDEFGHIJKLMNOPQRSTUVWXYZ'' ''abcdefghijklmnopqrstuvwxyz'') c of
        Some l \<Rightarrow> l
      | None \<Rightarrow> c)"

fun ascii_capitalize :: "string \<Rightarrow> string" where
  "ascii_capitalize [] = []"
| "ascii_capitalize (c # cs) = upper_char c # map lower_char cs"

text \<open>
  An environment that answers every request with \<open>answer\<close>, decodes with the model of
  \<^verbatim>\<open>json.loads\<close>, validates every decoded value as \<open>described\<close>, and capitalizes ASCII
  themes.
\<close>

definition example_environment ::
  "http_result \<Rightarrow> StoryLLMResponse \<Rightarrow> (decode_error, unit, unit) environment" where
  "example_environment answer described =
     \<lparr>GOOGLE_API_KEY = ''key'', STORY_PROMPT = ''Write a branching story.'',
      requests_post = (\<lambda>request. answer), json_loads = json_loads_model,
      model_validate = (\<lambda>json_data. Inr described), capitalize = ascii_capitalize\<rparr>"

text \<open>A story with two options that lead to endings, its JSON text, and an answer that wraps the text.\<close>

definition cave_story :: StoryLLMResponse where
  "cave_story =
     \<lparr>title = ''The Cave'',
      rootNode = StoryNodeLLM ''A cave.'' False False
        [StoryOptionLLM ''Enter'' (StoryNodeLLM ''Gold!'' True True []),
         StoryOptionLLM ''Leave'' (StoryNodeLLM ''Home.'' True False [])]\<rparr>"

definition cave_json :: string where
  \<open>cave_json =
     ''{"title": "The Cave", "rootNode": {"content": "A cave.", "isEnding": false, ''
     @ ''"isWinningEnding": false, "options": [{"text": "Enter", "nextNode": {"content": "Gold!", ''
     @ ''"isEnding": true, "isWinningEnding": true, "options": []}}, {"text": "Leave", ''
     @ ''"nextNode": {"content": "Home.", "isEnding": true, "isWinningEnding": false, ''
     @ ''"options": []}}]}}''\<close>


definition cave_answer :: string where
  "cave_answer = ''Here is your story: '' @ cave_json @ '' Enjoy!''"

definition cave_environment :: "(decode_error, unit, unit) environment" where
  "cave_environment = example_environment (text_response cave_answer) cave_story"

text \<open>A text of 517 characters that is not JSON.\<close>

definition long_text :: string where
  "long_text = ''Once upon a time '' @ replicate 500 (CHR ''.'')"

text \<open>A description of four nodes, three levels deep, and an ending that carries an option.\<close>

definition branching_node :: StoryNodeLLM where
  "branching_node =
     StoryNodeLLM ''A fork in the road.'' False False
       [StoryOptionLLM ''Left'' (StoryNodeLLM ''A river.'' False False
          [StoryOptionLLM ''Swim'' (StoryNodeLLM ''You made it.'' True True [])]),
        StoryOptionLLM ''Right'' (StoryNodeLLM ''A cliff.'' True False [])]"

definition ending_with_options :: StoryNodeLLM where
  "ending_with_options =
     StoryNodeLLM ''The end.'' True True
       [StoryOptionLLM ''Go on'' (StoryNodeLLM ''A hidden room.'' False False [])]"

section \<open>The scan on balanced texts\<close>

lemma scan_string_chars:
  assumes "string_chars s" and "depth \<noteq> 0"
  shows "scan_braces st i (s @ dquote # rest) depth True False =
         scan_braces st (i + length s + 1) rest depth False False"
  using assms
proof (induction s arbitrary: i rule: string_chars.induct)
  case sc_end
  then show ?case by simp
next
  case (sc_char c cs)
  then show ?case by simp
next
  case (sc_escape cs e)
  then show ?case by simp
qed

lemma scan_balanced:
  assumes "balanced b" and "0 < depth"
  shows "scan_braces st i (b @ rest) depth False False =
         scan_braces st (i + length b) rest depth False False"
  using assms
proof (induction b arbitrary: i depth rest rule: balanced.induct)
  case bal_end
  then show ?case by simp
next
  case (bal_char c cs)
  then show ?case by simp
next
  case (bal_string s cs)
  have "scan_braces st i ((dquote # s @ dquote # cs) @ rest) depth False False =
        scan_braces st (i + 1) (s @ dquote # (cs @ rest)) depth True False"
    by simp
  also have "\<dots> = scan_braces st (i + 1 + length s + 1) (cs @ rest) depth False False"
    using bal_string.hyps(1) bal_string.prems by (intro scan_string_chars) auto
  also have "\<dots> = scan_braces st (i + 1 + length s + 1 + length cs) rest depth False False"
    using bal_string.prems by (intro bal_string.IH) auto
  finally show ?case by (simp add: add.assoc)
next
  case (bal_braces b cs)
  have d1: "depth + 1 \<noteq> 0" "0 \<le> depth + 1"
    using bal_braces.prems by auto
  have "scan_braces st i ((CHR ''{'' # b @ CHR ''}'' # cs) @ rest) depth False False =
        scan_braces st (i + 1) (b @ CHR ''}'' # (cs @ rest)) (depth + 1) False False"
    using d1 by simp
  also have "\<dots> = scan_braces st (i + 1 + length b) (CHR ''}'' # (cs @ rest)) (depth + 1) False False"
    using d1 by (intro bal_braces.IH(1)) auto
  also have "\<dots> = scan_braces st (i + 1 + length b + 1) (cs @ rest) depth False False"
    using bal_braces.prems by simp
  also have "\<dots> = scan_braces st (i + 1 + length b + 1 + length cs) rest depth False False"
    using bal_braces.prems by (intro bal_braces.IH(2)) auto
  finally show ?case by (simp add: add.assoc)
qed

section \<open>The extractor\<close>

lemma str_find_first:
  assumes "c \<notin> set pre"
  shows "str_find (pre @ c # rest) c = int (length pre)"
  using assms by (induction pre) (auto simp: str_find_def)

lemma str_find_none: "c \<notin> set text \<Longrightarrow> str_find text c = - 1"
  by (simp add: str_find_def)

lemma scan_balanced_object:
  assumes "balanced b"
  shows "scan_braces st st (CHR ''{'' # b @ CHR ''}'' # after) 0 False False =
         Some (st + length b + 1)"
proof -
  have "scan_braces st st (CHR ''{'' # b @ CHR ''}'' # after) 0 False False =
        scan_braces st (st + 1) (b @ CHR ''}'' # after) 1 False False"
    by simp
  also have "\<dots> = scan_braces st (st + 1 + length b) (CHR ''}'' # after) 1 False False"
    using assms by (intro scan_balanced) auto
  also have "\<dots> = Some (st + length b + 1)"
    by simp
  finally show ?thesis .
qed

text \<open>
  The scan finds a balanced object that starts at the first opening brace, whatever
  stands before and after it.
\<close>

lemma candidate_balanced_object:
  assumes "CHR ''{'' \<notin> set pre" and "balanced_object obj"
  shows "candidate (pre @ obj @ after) = Some obj"
proof -
  from assms(2) obtain b where obj: "obj = CHR ''{'' # b @ ''}''" and b: "balanced b"
    by (auto simp: balanced_object_def)
  have find: "str_find (pre @ obj @ after) (CHR ''{'') = int (length pre)"
    using assms(1) by (simp add: obj str_find_first)
  have scan: "scan_braces (length pre) (length pre) (obj @ after) 0 False False
      = Some (length pre + length b + 1)"
    using scan_balanced_object [OF b, of "length pre" after] by (simp add: obj)
  have "slice (pre @ obj @ after) (length pre) (length pre + length b + 1 + 1) = obj"
    by (simp add: slice_def obj)
  then show ?thesis
    by (simp add: candidate_def find scan)
qed

text \<open>The method in terms of the candidate: what it returns in each of its three exits.\<close>

lemma extract_json_candidate:
  "extract_json loads text =
     (case candidate text of
        None \<Rightarrow> Inr text
      | Some c \<Rightarrow> (case loads c of Inl e \<Rightarrow> Inr text | Inr v \<Rightarrow> Inr c))"
  by (auto simp: extract_json_def extract_json_try_def candidate_def Let_def
      split: option.splits sum.splits)

lemmas json_eval = json_loads_model_def json_valid_def start_value_def after_value_def
  is_ws_def is_digit_def is_hex_def

lemma balanced_object_example:
  \<open>balanced_object (''{"a": "'' @ [backslash] @ ''"{not json}"}'')\<close>
proof -
  have s1: "string_chars ''a''"
    by (intro string_chars.intros) simp_all
  have s2: "string_chars (backslash # dquote # ''{not json}'')"
    by (intro string_chars.intros) simp_all
  have "balanced (dquote # ''a'' @ dquote # CHR '':'' # CHR '' '' # dquote #
          (backslash # dquote # ''{not json}'') @ dquote # [])"
    by (intro bal_string bal_char bal_end s1 s2) simp_all
  then show ?thesis
    unfolding balanced_object_def
    by (intro exI [of _ "dquote # ''a'' @ dquote # CHR '':'' # CHR '' '' # dquote #
          (backslash # dquote # ''{not json}'') @ dquote # []"]) simp
qed

lemma json_loads_example:
  \<open>json_loads_model (''{"a": "'' @ [backslash] @ ''"{not json}"}'') = Inr ()\<close>
  by (simp add: json_eval)

text \<open>
  C1. A text holds a balanced JSON object that starts at its first opening brace, with
  any text before it (without an opening brace) and any text after it; braces inside
  the string literals of the object, also after escaped quotes, are part of the
  literals. When \<^verbatim>\<open>json.loads\<close> accepts the object, \<^verbatim>\<open>_extract_json\<close> returns exactly the
  object, which \<^verbatim>\<open>json.loads\<close> accepts.
\<close>

theorem extract_json_balanced_object:
  assumes "CHR ''{'' \<notin> set pre" and "balanced_object obj" and "loads obj = Inr v"
  shows "extract_json loads (pre @ obj @ after) = Inr obj \<and> loads obj = Inr v"
  using candidate_balanced_object [OF assms(1,2), of after] assms(3)
  by (simp add: extract_json_candidate)

text \<open>
  The theorem at the text \<^verbatim>\<open>Sure, here it is: {"a": "\"{not json}"} Enjoy {it}!\<close>, whose
  object has braces and an escaped quote inside a string literal.
\<close>

theorem extract_json_balanced_object_witness:
  \<open>CHR ''{'' \<notin> set ''Sure, here it is: '' \<and>
   balanced_object (''{"a": "'' @ [backslash] @ ''"{not json}"}'') \<and>
   json_loads_model (''{"a": "'' @ [backslash] @ ''"{not json}"}'') = Inr () \<and>
   extract_json json_loads_model
     (''Sure, here it is: {"a": "'' @ [backslash] @ ''"{not json}"} Enjoy {it}!'')
     = (Inr (''{"a": "'' @ [backslash] @ ''"{not json}"}'') :: unit + string)\<close>
  using extract_json_balanced_object [of "''Sure, here it is: ''"
      \<open>''{"a": "'' @ [backslash] @ ''"{not json}"}''\<close> json_loads_model "()" "'' Enjoy {it}!''"]
    balanced_object_example json_loads_example
  by simp

text \<open>
  C3, as the code has it. When the scan locates a candidate and \<^verbatim>\<open>json.loads\<close> raises on
  it, the handler of lines 67 to 69 catches the exception and \<^verbatim>\<open>_extract_json\<close> returns
  the whole text unchanged.
\<close>

theorem extract_json_invalid_candidate:
  assumes "candidate text = Some c" and "loads c = Inl e"
  shows "extract_json loads text = Inr text"
  using assms by (simp add: extract_json_candidate)

theorem extract_json_invalid_candidate_witness:
  \<open>candidate ''Here: {abc} and more'' = Some ''{abc}'' \<and>
   json_loads_model ''{abc}'' = Inl JSONDecodeError \<and>
   extract_json json_loads_model ''Here: {abc} and more''
     = (Inr ''Here: {abc} and more'' :: unit + string)\<close>
proof -
  have c: "candidate ''Here: {abc} and more'' = Some ''{abc}''"
    by (simp add: candidate_def str_find_def slice_def)
  have l: "json_loads_model ''{abc}'' = Inl JSONDecodeError"
    by (simp add: json_eval)
  show ?thesis
    using extract_json_invalid_candidate [of "''Here: {abc} and more''" "''{abc}''"
        json_loads_model JSONDecodeError] c l by simp
qed

text \<open>
  C3 as stated fails: in \<^verbatim>\<open>Here: {abc} and more\<close> the scan locates the candidate
  \<^verbatim>\<open>{abc}\<close>, which is not JSON; the \<^verbatim>\<open>try\<close> block raises the decode error, and the
  method returns the text instead of raising.
\<close>

theorem extract_json_propagates_counterexample:
  \<open>candidate ''Here: {abc} and more'' = Some ''{abc}'' \<and>
   json_loads_model ''{abc}'' = Inl JSONDecodeError \<and>
   extract_json_try json_loads_model ''Here: {abc} and more'' = Inl JSONDecodeError \<and>
   extract_json json_loads_model ''Here: {abc} and more''
     = (Inr ''Here: {abc} and more'' :: decode_error + string)\<close>
  by (simp add: candidate_def extract_json_def extract_json_try_def str_find_def slice_def
      json_eval)

lemma scan_no_closing_brace:
  "CHR ''}'' \<notin> set cs \<Longrightarrow> 0 < depth \<Longrightarrow>
   scan_braces st i cs depth in_string escape_next = None"
  by (induction cs arbitrary: i depth in_string escape_next) (auto simp: Let_def)

text \<open>A text without a closing brace has no candidate.\<close>

lemma candidate_no_closing_brace:
  assumes "CHR ''}'' \<notin> set text"
  shows "candidate text = None"
proof (cases "CHR ''{'' \<in> set text")
  case False
  then show ?thesis
    by (simp add: candidate_def str_find_none)
next
  case True
  then obtain pre rest where parts: "text = pre @ CHR ''{'' # rest" and pre: "CHR ''{'' \<notin> set pre"
    by (meson split_list_first)
  have "CHR ''}'' \<notin> set rest"
    using assms parts by simp
  then have "scan_braces (length pre) (length pre + 1) rest 1 False False = None"
    by (intro scan_no_closing_brace) simp_all
  then show ?thesis
    using pre by (simp add: candidate_def parts str_find_first)
qed

lemma scan_string_chars_open:
  assumes "string_chars s"
  shows "scan_braces st i (s @ rest) depth True False =
         scan_braces st (i + length s) rest depth True False"
  using assms
proof (induction s arbitrary: i rule: string_chars.induct)
  case sc_end
  then show ?case by simp
next
  case (sc_char c cs)
  then show ?case by simp
next
  case (sc_escape cs e)
  then show ?case by simp
qed

lemma scan_open_literal:
  assumes "open_literal s"
  shows "scan_braces st i s depth True False = None"
  using assms
proof cases
  case ol_chars
  then show ?thesis
    using scan_string_chars_open [of s st i "[]" depth] by simp
next
  case (ol_backslash s')
  then show ?thesis
    using scan_string_chars_open [of s' st i "[backslash]" depth] by simp
qed

lemma scan_left_open:
  assumes "left_open u" and "0 < depth"
  shows "scan_braces st i u depth False False = None"
  using assms
proof (induction u arbitrary: i depth rule: left_open.induct)
  case (lo_balanced b)
  then show ?case
    using scan_balanced [of b depth st i "[]"] by simp
next
  case (lo_literal b s)
  have "scan_braces st i (b @ dquote # s) depth False False =
        scan_braces st (i + length b) (dquote # s) depth False False"
    using lo_literal by (intro scan_balanced) auto
  also have "\<dots> = scan_braces st (i + length b + 1) s depth True False"
    by simp
  also have "\<dots> = None"
    using lo_literal.hyps(2) by (rule scan_open_literal)
  finally show ?case .
next
  case (lo_braces b u)
  have "scan_braces st i (b @ CHR ''{'' # u) depth False False =
        scan_braces st (i + length b) (CHR ''{'' # u) depth False False"
    using lo_braces by (intro scan_balanced) auto
  also have "\<dots> = scan_braces st (i + length b + 1) u (depth + 1) False False"
    using lo_braces.prems by simp
  also have "\<dots> = None"
    using lo_braces.prems by (intro lo_braces.IH) simp
  finally show ?case .
qed

lemma candidate_left_open:
  assumes "CHR ''{'' \<notin> set pre" and "left_open u"
  shows "candidate (pre @ CHR ''{'' # u) = None"
proof -
  have "scan_braces (length pre) (length pre + 1) u 1 False False = None"
    using assms(2) by (intro scan_left_open) simp_all
  then show ?thesis
    using assms(1) by (simp add: candidate_def str_find_first)
qed

text \<open>
  C8. When the text has no opening brace, or no closing brace, or its first opening
  brace is followed by a text that never closes it (balanced as far as it goes, or
  ending inside a string literal or after an inner brace that is never closed),
  \<^verbatim>\<open>_extract_json\<close> returns the text unchanged and raises nothing.
\<close>

theorem extract_json_no_object:
  assumes "CHR ''{'' \<notin> set text \<or> CHR ''}'' \<notin> set text \<or>
           (\<exists>pre u. text = pre @ CHR ''{'' # u \<and> CHR ''{'' \<notin> set pre \<and> left_open u)"
  shows "extract_json loads text = Inr text"
proof -
  have "candidate text = None"
    using assms candidate_no_closing_brace candidate_left_open
    by (auto simp: candidate_def str_find_none)
  then show ?thesis by (simp add: extract_json_candidate)
qed

lemma left_open_literal_example: \<open>left_open ''"a": "}, {''\<close>
proof -
  have "string_chars ''a''" "string_chars ''}, {''"
    by (intro string_chars.intros; simp)+
  then have "balanced (dquote # ''a'' @ dquote # '': '')" "open_literal ''}, {''"
    by (intro balanced.intros open_literal.intros; simp)+
  then have "left_open ((dquote # ''a'' @ dquote # '': '') @ dquote # ''}, {'')"
    by (rule lo_literal)
  then show ?thesis by simp
qed

lemma left_open_braces_example: \<open>left_open ''"a": {"b": {}, "c": [1, 2]''\<close>
proof -
  have "string_chars ''a''" "string_chars ''b''" "string_chars ''c''"
    by (intro string_chars.intros; simp)+
  then have "balanced (dquote # ''a'' @ dquote # '': '')"
    and "balanced (dquote # ''b'' @ dquote # CHR '':'' # CHR '' '' # CHR ''{'' # [] @ CHR ''}'' #
       CHR '','' # CHR '' '' # dquote # ''c'' @ dquote # '': [1, 2]'')"
    by (intro balanced.intros; simp)+
  then have "left_open ((dquote # ''a'' @ dquote # '': '') @ CHR ''{'' #
      (dquote # ''b'' @ dquote # CHR '':'' # CHR '' '' # CHR ''{'' # [] @ CHR ''}'' #
       CHR '','' # CHR '' '' # dquote # ''c'' @ dquote # '': [1, 2]''))"
    by (intro lo_braces lo_balanced)
  then show ?thesis by simp
qed

theorem extract_json_no_object_witness:
  \<open>CHR ''{'' \<notin> set ''no object here'' \<and>
   extract_json json_loads_model ''no object here'' = (Inr ''no object here'' :: unit + string) \<and>
   CHR ''}'' \<notin> set ''Draft {1, 2'' \<and>
   extract_json json_loads_model ''Draft {1, 2'' = (Inr ''Draft {1, 2'' :: unit + string) \<and>
   left_open ''"a": "}, {'' \<and>
   extract_json json_loads_model ''Story: {"a": "}, {''
     = (Inr ''Story: {"a": "}, {'' :: unit + string) \<and>
   left_open ''"a": {"b": {}, "c": [1, 2]'' \<and>
   extract_json json_loads_model ''{"a": {"b": {}, "c": [1, 2]''
     = (Inr ''{"a": {"b": {}, "c": [1, 2]'' :: unit + string)\<close>
proof -
  have n: "CHR ''{'' \<notin> set ''no object here''" by simp
  have a: \<open>\<exists>pre u. ''Story: {"a": "}, {'' = pre @ CHR ''{'' # u \<and> CHR ''{'' \<notin> set pre \<and> left_open u\<close>
    using left_open_literal_example
    by (intro exI [of _ "''Story: ''"] exI [of _ \<open>''"a": "}, {''\<close>]) simp
  have b: \<open>\<exists>pre u. ''{"a": {"b": {}, "c": [1, 2]'' = pre @ CHR ''{'' # u \<and> CHR ''{'' \<notin> set pre \<and> left_open u\<close>
    using left_open_braces_example
    by (intro exI [of _ "[]"] exI [of _ \<open>''"a": {"b": {}, "c": [1, 2]''\<close>]) simp
  show ?thesis
    using extract_json_no_object [of "''no object here''" json_loads_model]
      extract_json_no_object [of "''Draft {1, 2''" json_loads_model]
      extract_json_no_object [of \<open>''Story: {"a": "}, {''\<close> json_loads_model]
      extract_json_no_object [of \<open>''{"a": {"b": {}, "c": [1, 2]''\<close> json_loads_model]
      n a b left_open_literal_example left_open_braces_example
    by simp
qed

section \<open>The scan on texts that the recogniser accepts\<close>

text \<open>
  Each character that the recogniser accepts moves the loop variables of the scan as
  it moves the recogniser: \<open>in_string\<close> holds in the states inside a string literal,
  \<open>escape_next\<close> in the state after a backslash, and \<open>depth\<close> is the number of open
  objects.
\<close>

lemma digit_plain:
  "is_digit c \<Longrightarrow> c \<noteq> backslash \<and> c \<noteq> CHR ''}'' \<and> c \<noteq> dquote \<and> c \<noteq> CHR ''{''"
  by (auto simp: is_digit_def)

lemma ws_plain:
  "is_ws c \<Longrightarrow> c \<noteq> backslash \<and> c \<noteq> CHR ''}'' \<and> c \<noteq> dquote \<and> c \<noteq> CHR ''{''"
  by (auto simp: is_ws_def)

lemma hex_plain:
  "is_hex c \<Longrightarrow> c \<noteq> backslash \<and> c \<noteq> CHR ''}'' \<and> c \<noteq> dquote \<and> c \<noteq> CHR ''{''"
  by (auto simp: is_hex_def)

lemma after_value_sim:
  assumes "after_value stack c = Some (stack', s')"
  shows "c \<noteq> dquote \<and> c \<noteq> backslash \<and> c \<noteq> CHR ''{'' \<and> \<not> in_string_state s' \<and>
         \<not> escape_state s' \<and> state_fits stack' s' \<and>
         open_objects stack' = (if c = CHR ''}'' then open_objects stack - 1 else open_objects stack)"
  using assms
  by (auto simp: after_value_def is_ws_def open_objects_def
      split: if_splits list.splits container.splits)

lemma start_value_sim:
  assumes "start_value stack c = Some (stack', s')"
  shows "c \<noteq> backslash \<and> c \<noteq> CHR ''}'' \<and> state_fits stack' s' \<and> \<not> escape_state s' \<and>
         in_string_state s' = (c = dquote) \<and>
         open_objects stack' = (if c = CHR ''{'' then open_objects stack + 1 else open_objects stack)"
proof -
  consider "c = CHR ''{''" | "c = CHR ''[''" | "c = dquote" | "c = CHR ''-''" | "c = CHR ''0''"
    | "is_digit c" "c \<noteq> CHR ''{''" "c \<noteq> dquote"
    | "c = CHR ''t''" | "c = CHR ''f''" | "c = CHR ''n''" | "c = CHR ''N''" | "c = CHR ''I''"
    using assms digit_plain [of c] by (simp add: start_value_def split: if_splits)
  then show ?thesis
  proof cases
    case 6
    then show ?thesis
      using assms digit_plain [of c]
      by (auto simp: start_value_def open_objects_def split: if_splits)
  qed (use assms in \<open>auto simp: start_value_def open_objects_def structural_def is_digit_def\<close>)
qed


lemma number_step_sim:
  assumes "number_step stack n c = Some (stack', s')"
  shows "c \<noteq> dquote \<and> c \<noteq> backslash \<and> c \<noteq> CHR ''{'' \<and> \<not> in_string_state s' \<and>
         \<not> escape_state s' \<and> state_fits stack' s' \<and>
         open_objects stack' = (if c = CHR ''}'' then open_objects stack - 1 else open_objects stack)"
proof (cases n)
  case Minus
  then show ?thesis
    using assms digit_plain [of c] by (auto simp: structural_def split: if_splits)
next
  case Zero
  then show ?thesis
    using assms after_value_sim [of stack c stack' s'] by (auto split: if_splits)
next
  case Digits
  then show ?thesis
    using assms after_value_sim [of stack c stack' s'] digit_plain [of c]
    by (auto split: if_splits)
next
  case Dot
  then show ?thesis
    using assms digit_plain [of c] by (auto split: if_splits)
next
  case Frac
  then show ?thesis
    using assms after_value_sim [of stack c stack' s'] digit_plain [of c]
    by (auto split: if_splits)
next
  case Exp
  then show ?thesis
    using assms digit_plain [of c] by (auto split: if_splits)
next
  case ExpSign
  then show ?thesis
    using assms digit_plain [of c] by (auto split: if_splits)
next
  case ExpDigits
  then show ?thesis
    using assms after_value_sim [of stack c stack' s'] digit_plain [of c]
    by (auto split: if_splits)
qed

lemma json_step_sim:
  assumes "json_step stack s c = Some (stack', s')" and "state_fits stack s"
  shows "state_fits stack' s' \<and>
         escape_state s' = (c = backslash \<and> \<not> escape_state s) \<and>
         in_string_state s' =
           (if c = dquote \<and> \<not> escape_state s then \<not> in_string_state s else in_string_state s) \<and>
         open_objects stack' =
           (if in_string_state s' \<or> (c = backslash \<and> \<not> escape_state s) then open_objects stack
            else if c = CHR ''{'' then open_objects stack + 1
            else if c = CHR ''}'' then open_objects stack - 1
            else open_objects stack)"
proof (cases s)
  case Value
  then show ?thesis
    using assms ws_plain [of c] start_value_sim [of stack c stack' s']
    by (auto split: if_splits)
next
  case ValueOrEnd
  then show ?thesis
    using assms ws_plain [of c] start_value_sim [of stack c stack' s']
    by (auto simp: open_objects_def split: if_splits list.splits container.splits)
next
  case KeyOrEnd
  then show ?thesis
    using assms ws_plain [of c]
    by (auto simp: open_objects_def split: if_splits list.splits container.splits)
next
  case Key
  then show ?thesis
    using assms ws_plain [of c] by (auto split: if_splits)
next
  case Colon
  then show ?thesis
    using assms ws_plain [of c] by (auto split: if_splits)
next
  case After
  then show ?thesis
    using assms after_value_sim [of stack c stack' s'] by auto
next
  case (InString k)
  then show ?thesis
    using assms by (auto split: if_splits)
next
  case (Escape k)
  then show ?thesis
    using assms by (auto split: if_splits)
next
  case (Hex k n)
  then show ?thesis
    using assms hex_plain [of c] by (auto split: if_splits)
next
  case (Literal l)
  then show ?thesis
    using assms by (cases l) (auto simp: structural_def split: if_splits)
next
  case (Number n)
  then show ?thesis
    using assms number_step_sim [of stack n c stack' s'] by auto
qed

lemma after_value_stack:
  "after_value stack c = Some (stack', s') \<Longrightarrow>
   stack' = stack \<or> (stack' = tl stack \<and> s' = After \<and> stack \<noteq> [])"
  by (auto simp: after_value_def split: if_splits list.splits container.splits)

lemma start_value_stack:
  "start_value stack c = Some (stack', s') \<Longrightarrow> stack' = stack \<or> (\<exists>x. stack' = x # stack)"
  by (auto simp: start_value_def split: if_splits)

lemma number_step_stack:
  "number_step stack n c = Some (stack', s') \<Longrightarrow>
   stack' = stack \<or> (stack' = tl stack \<and> s' = After \<and> stack \<noteq> [])"
  using after_value_stack [of stack c stack' s']
  by (cases n) (auto split: if_splits)

lemma json_step_stack:
  assumes "json_step stack s c = Some (stack', s')" and "state_fits stack s"
  shows "stack' = stack \<or> (\<exists>x. stack' = x # stack) \<or>
         (stack' = tl stack \<and> s' = After \<and> stack \<noteq> [])"
proof (cases s)
  case Value
  then show ?thesis
    using assms start_value_stack [of stack c stack' s'] by (auto split: if_splits)
next
  case ValueOrEnd
  then show ?thesis
    using assms start_value_stack [of stack c stack' s']
    by (auto split: if_splits list.splits)
next
  case KeyOrEnd
  then show ?thesis
    using assms by (auto split: if_splits list.splits)
next
  case After
  then show ?thesis
    using assms after_value_stack [of stack c stack' s'] by auto
next
  case (Literal l)
  then show ?thesis
    using assms by (cases l) (auto split: if_splits)
next
  case (Number n)
  then show ?thesis
    using assms number_step_stack [of stack n c stack' s'] by auto
qed (use assms in \<open>auto split: if_splits\<close>)

lemma bottom_object_kept:
  assumes "json_step stack s c = Some (stack', s')" and "state_fits stack s"
    and "stack \<noteq> []" and "last stack = InObject"
  shows "(stack' = [] \<and> s' = After) \<or> (stack' \<noteq> [] \<and> last stack' = InObject)"
proof -
  from json_step_stack [OF assms(1,2)]
  consider "stack' = stack" | x where "stack' = x # stack"
    | "stack' = tl stack" "s' = After" "stack \<noteq> []"
    by blast
  then show ?thesis
  proof cases
    case 1
    then show ?thesis using assms(3,4) by simp
  next
    case 2
    then show ?thesis using assms(3,4) by simp
  next
    case 3
    then show ?thesis
      using assms(3,4) by (cases stack) (auto split: if_splits)
  qed
qed

lemma open_objects_pos:
  assumes "stack \<noteq> []" and "last stack = InObject"
  shows "1 \<le> open_objects stack"
proof -
  have "InObject \<in> set stack"
    using assms by (metis last_in_set)
  then have "filter (\<lambda>c. c = InObject) stack \<noteq> []"
    by (simp add: filter_empty_conv)
  then show ?thesis
    by (cases "filter (\<lambda>c. c = InObject) stack") (simp_all add: open_objects_def)
qed

lemma whitespace_after_value:
  "json_run [] After cs = Some r \<Longrightarrow> list_all is_ws cs"
  by (induction cs) (auto simp: after_value_def split: if_splits)

lemma scan_valid:
  assumes "json_run stack s (cs @ ''}'') = Some ([], After)"
    and "state_fits stack s" and "stack \<noteq> []" and "last stack = InObject" and "st < i"
  shows "scan_braces st i (cs @ CHR ''}'' # after) (open_objects stack) (in_string_state s)
           (escape_state s) = Some (i + length cs)"
  using assms
proof (induction cs arbitrary: stack s i)
  case Nil
  then have step: "json_step stack s (CHR ''}'') = Some ([], After)"
    by (simp split: option.splits prod.splits)
  from json_step_sim [OF step Nil.prems(2)]
  have "\<not> in_string_state s" "open_objects stack = 1"
    by (auto simp: open_objects_def split: if_splits)
  then show ?case
    using Nil.prems(5) by simp
next
  case (Cons c cs)
  from Cons.prems(1) obtain stack1 s1 where
    step: "json_step stack s c = Some (stack1, s1)"
    and run: "json_run stack1 s1 (cs @ ''}'') = Some ([], After)"
    by (auto split: option.splits prod.splits)
  have "\<not> (stack1 = [] \<and> s1 = After)"
  proof
    assume "stack1 = [] \<and> s1 = After"
    then have "list_all is_ws (cs @ ''}'')"
      using run whitespace_after_value by blast
    then show False
      by (simp add: is_ws_def)
  qed
  then have bottom: "stack1 \<noteq> []" "last stack1 = InObject"
    using bottom_object_kept [OF step Cons.prems(2,3,4)] by auto
  then have pos: "1 \<le> open_objects stack1"
    by (rule open_objects_pos)
  note sim = json_step_sim [OF step Cons.prems(2)]
  have ih: "scan_braces st (i + 1) (cs @ CHR ''}'' # after) (open_objects stack1)
      (in_string_state s1) (escape_state s1) = Some (i + 1 + length cs)"
    using run sim bottom Cons.prems(5) by (intro Cons.IH) auto
  show ?case
  proof (cases "c = backslash \<and> \<not> escape_state s")
    case True
    then show ?thesis
      using sim ih by auto
  next
    case False
    then have esc: "\<not> escape_state s1"
      using sim by simp
    show ?thesis
    proof (cases "in_string_state s1")
      case True
      then show ?thesis
        using False sim ih esc by (auto simp: Let_def)
    next
      case notin: False
      then show ?thesis
        using False sim ih esc pos by (auto simp: Let_def)
    qed
  qed
qed

lemma json_run_snoc:
  "json_run stack s (cs @ [c]) =
     (case json_run stack s cs of
        None \<Rightarrow> None
      | Some (stack1, s1) \<Rightarrow> json_step stack1 s1 c)"
  by (induction cs arbitrary: stack s) (auto split: option.splits)

lemma after_value_state:
  "after_value stack c = Some (stack', s') \<Longrightarrow> s' = After \<or> s' = Key \<or> s' = Value"
  by (auto simp: after_value_def split: if_splits list.splits container.splits)

lemma number_step_brace:
  "number_step stack n (CHR ''}'') = Some (stack', s') \<Longrightarrow> s' = After"
  by (cases n) (auto simp: after_value_def is_ws_def is_digit_def split: if_splits list.splits container.splits)

lemma json_step_brace:
  assumes "json_step stack s (CHR ''}'') = Some (stack', s')"
  shows "\<forall>n. s' \<noteq> Number n"
proof (cases s)
  case (Number n)
  then show ?thesis
    using assms number_step_brace [of stack n stack' s'] by auto
next
  case (Literal l)
  then show ?thesis
    using assms by (cases l) (auto split: if_splits)
qed (use assms in \<open>auto simp: after_value_def start_value_def is_ws_def is_digit_def
      split: if_splits list.splits container.splits\<close>)

lemma json_valid_object_run:
  assumes "json_valid (CHR ''{'' # b @ ''}'')"
  shows "json_run [InObject] KeyOrEnd (b @ ''}'') = Some ([], After)"
proof -
  have first: "json_run [] Value (CHR ''{'' # b @ ''}'') = json_run [InObject] KeyOrEnd (b @ ''}'')"
    by (simp add: start_value_def is_ws_def)
  obtain stack' s' where run: "json_run [InObject] KeyOrEnd (b @ ''}'') = Some (stack', s')"
    using assms first by (cases "json_run [InObject] KeyOrEnd (b @ ''}'')") (auto simp: json_valid_def)
  then obtain stack1 s1 where "json_step stack1 s1 (CHR ''}'') = Some (stack', s')"
    by (auto simp: json_run_snoc split: option.splits)
  then have "\<forall>n. s' \<noteq> Number n"
    by (rule json_step_brace)
  then show ?thesis
    using assms first run
    by (auto simp: json_valid_def split: list.splits json_state.splits)
qed

text \<open>
  Every text that the recogniser accepts and that starts with an opening brace and ends
  with a closing brace is found by the scan, whatever stands before it (without an
  opening brace) and after it: the scan locates every JSON object as its candidate.
\<close>

lemma candidate_json_object:
  assumes "json_valid (CHR ''{'' # b @ ''}'')" and "CHR ''{'' \<notin> set pre"
  shows "candidate (pre @ (CHR ''{'' # b @ ''}'') @ after) = Some (CHR ''{'' # b @ ''}'')"
proof -
  let ?text = "pre @ CHR ''{'' # b @ CHR ''}'' # after"
  have find: "str_find ?text (CHR ''{'') = int (length pre)"
    using assms(2) by (rule str_find_first)
  have "scan_braces (length pre) (length pre + 1) (b @ CHR ''}'' # after)
          (open_objects [InObject]) (in_string_state KeyOrEnd) (escape_state KeyOrEnd)
        = Some (length pre + 1 + length b)"
    using json_valid_object_run [OF assms(1)] by (intro scan_valid) auto
  then have scan: "scan_braces (length pre) (length pre) (CHR ''{'' # b @ CHR ''}'' # after)
      0 False False = Some (length pre + length b + 1)"
    by (simp add: open_objects_def)
  have cut: "slice ?text (length pre) (length pre + length b + 1 + 1) = CHR ''{'' # b @ ''}''"
    by (simp add: slice_def)
  have "candidate ?text = Some (CHR ''{'' # b @ ''}'')"
    unfolding candidate_def find Let_def using scan cut by simp
  then show ?thesis by simp
qed

section \<open>The network call\<close>

lemma first_candidate_text_none:
  "no_candidate_text r \<Longrightarrow> first_candidate_text r = Inr None"
  by (auto simp: no_candidate_text_def first_candidate_text_def)

text \<open>
  C2, as the code has it. For a 2xx response whose payload has no error object and in
  which the candidates are absent or empty, or the content of the first candidate has
  no parts or an empty list of parts, \<^verbatim>\<open>_call_gemini_api\<close> returns the text
  \<^verbatim>\<open>No valid response from Gemini API\<close> as its result (line 117); it raises nothing.
\<close>

theorem call_gemini_api_no_candidate_no_error:
  assumes "post (gemini_request api_key prompt) = Response r"
    and "no_candidate_text r" and "error r = None"
  shows "call_gemini_api api_key post loads prompt = Inr ''No valid response from Gemini API''"
  using assms
  by (simp add: call_gemini_api_def read_response_def first_candidate_text_none)

theorem call_gemini_api_no_candidate_no_error_witness:
  "no_candidate_text \<lparr>candidates = Some [Candidate (Some (Content (Some [])))], error = None\<rparr> \<and>
   error \<lparr>candidates = Some [Candidate (Some (Content (Some [])))], error = None\<rparr> = None \<and>
   call_gemini_api ''key''
     (\<lambda>request. Response \<lparr>candidates = Some [Candidate (Some (Content (Some [])))], error = None\<rparr>)
     json_loads_model ''Tell a story''
   = Inr ''No valid response from Gemini API''"
  using call_gemini_api_no_candidate_no_error
    [of "\<lambda>request. Response \<lparr>candidates = Some [Candidate (Some (Content (Some [])))], error = None\<rparr>"
      "''key''" "''Tell a story''"
      "\<lparr>candidates = Some [Candidate (Some (Content (Some [])))], error = None\<rparr>" json_loads_model]
  by (simp add: no_candidate_text_def)

text \<open>
  C2 as stated fails: for the 2xx payload \<^verbatim>\<open>{}\<close>, with no candidates and no error
  object, the method returns a text value; it does not raise.
\<close>

theorem call_gemini_api_raises_counterexample:
  "candidates \<lparr>candidates = None, error = None\<rparr> = None \<and>
   error \<lparr>candidates = None, error = None\<rparr> = None \<and>
   call_gemini_api ''key'' (\<lambda>request. Response \<lparr>candidates = None, error = None\<rparr>)
     json_loads_model ''Tell a story''
   = Inr ''No valid response from Gemini API''"
  by (simp add: call_gemini_api_def read_response_def first_candidate_text_def)

section \<open>The rows that the persistence adds\<close>

lemma upt_first: "[i ..< Suc (i + n)] = i # [Suc i ..< Suc (i + n)]"
  by (simp add: upt_conv_Cons del: upt_Suc)

lemma upt_split: "[i ..< i + (m + n)] = [i ..< i + m] @ [i + m ..< i + m + n]"
  by (metis add.assoc le_add1 upt_add_eq_append)

lemma ids_rows:
  "map StoryNode_id (node_rows sid i nd r) = [i ..< i + length (node_rows sid i nd r)]"
  "map StoryNode_id (snd (option_rows sid i opts)) = [i ..< i + length (snd (option_rows sid i opts))]"
proof (induction sid i nd r and sid i opts rule: node_rows_option_rows.induct)
  case (1 sid i c e w opts r)
  show ?case
  proof (cases "\<not> e \<and> opts \<noteq> []")
    case True
    then show ?thesis
      using 1 upt_first [of i "length (snd (option_rows sid (Suc i) opts))"]
      by (simp del: upt_Suc)
  next
    case False
    then show ?thesis by auto
  qed
next
  case (2 sid i)
  then show ?case by simp
next
  case (3 sid i t next_node rest)
  obtain entries more_rows where
    o: "option_rows sid (i + length (node_rows sid i next_node False)) rest = (entries, more_rows)"
    by (cases "option_rows sid (i + length (node_rows sid i next_node False)) rest")
  show ?case
    using 3(1) 3(2) [OF refl] o
    by (simp add: upt_split del: upt_Suc)
qed


lemma id_bounds:
  "n \<in> set (node_rows sid i nd r) \<Longrightarrow>
     i \<le> StoryNode_id n \<and> StoryNode_id n < i + length (node_rows sid i nd r)"
  "n \<in> set (snd (option_rows sid i opts)) \<Longrightarrow>
     i \<le> StoryNode_id n \<and> StoryNode_id n < i + length (snd (option_rows sid i opts))"
proof -
  assume "n \<in> set (node_rows sid i nd r)"
  then have "StoryNode_id n \<in> set (map StoryNode_id (node_rows sid i nd r))"
    by simp
  then show "i \<le> StoryNode_id n \<and> StoryNode_id n < i + length (node_rows sid i nd r)"
    unfolding ids_rows(1) by simp
next
  assume "n \<in> set (snd (option_rows sid i opts))"
  then have "StoryNode_id n \<in> set (map StoryNode_id (snd (option_rows sid i opts)))"
    by simp
  then show "i \<le> StoryNode_id n \<and> StoryNode_id n < i + length (snd (option_rows sid i opts))"
    unfolding ids_rows(2) by simp
qed

lemma map_other_ids:
  "\<forall>n \<in> set xs. StoryNode_id n \<noteq> i \<Longrightarrow>
   map (\<lambda>n. if StoryNode_id n = i then g n else n) xs = xs"
  by (induction xs) auto

lemma fresh_ids_append:
  assumes "fresh_ids db" and "\<forall>n \<in> set rows. StoryNode_id n < next_node_id db + k"
  shows "fresh_ids (db\<lparr>story_nodes := story_nodes db @ rows, next_node_id := next_node_id db + k\<rparr>)"
  using assms by (auto simp: fresh_ids_def list_all_iff)

lemma fresh_ids_node_rows:
  assumes "fresh_ids db"
  shows "fresh_ids (db\<lparr>story_nodes := story_nodes db @ node_rows sid (next_node_id db) nd r,
     next_node_id := next_node_id db + length (node_rows sid (next_node_id db) nd r)\<rparr>)"
  using assms id_bounds(1) by (intro fresh_ids_append) auto

lemma length_node_rows_pos: "0 < length (node_rows sid i nd r)"
  by (cases nd) simp

lemma process_rows:
  "fresh_ids db \<Longrightarrow> process_story_node db sid nd r =
      (db\<lparr>story_nodes := story_nodes db @ node_rows sid (next_node_id db) nd r,
          next_node_id := next_node_id db + length (node_rows sid (next_node_id db) nd r)\<rparr>,
       hd (node_rows sid (next_node_id db) nd r))"
  "fresh_ids db \<Longrightarrow> process_options db sid opts acc =
      (db\<lparr>story_nodes := story_nodes db @ snd (option_rows sid (next_node_id db) opts),
          next_node_id := next_node_id db + length (snd (option_rows sid (next_node_id db) opts))\<rparr>,
       acc @ fst (option_rows sid (next_node_id db) opts))"
proof (induction db sid nd r and db sid opts acc rule: process_story_node_process_options.induct)
  case (1 db sid c e w opts r)
  let ?i = "next_node_id db"
  let ?node = "\<lparr>StoryNode_id = ?i, story_id = sid, StoryNode_content = c, is_root = r,
     is_ending = e, is_winning_ending = w, StoryNode_options = []\<rparr>"
  let ?db1 = "db\<lparr>story_nodes := story_nodes db @ [?node], next_node_id := ?i + 1\<rparr>"
  have add: "add_node db sid c r e w = (?db1, ?node)"
    by (simp add: add_node_def Let_def)
  show ?case
  proof (cases "\<not> e \<and> opts \<noteq> []")
    case False
    then show ?thesis
      using add by auto
  next
    case True
    have fresh1: "fresh_ids ?db1"
      using 1(2) by (intro fresh_ids_append) auto
    have ih: "process_options ?db1 sid opts [] =
      (?db1\<lparr>story_nodes := story_nodes ?db1 @ snd (option_rows sid (next_node_id ?db1) opts),
          next_node_id := next_node_id ?db1 + length (snd (option_rows sid (next_node_id ?db1) opts))\<rparr>,
       [] @ fst (option_rows sid (next_node_id ?db1) opts))"
      using True by (intro 1(1) [OF add [symmetric] refl _ fresh1]) simp
    let ?children = "snd (option_rows sid (Suc ?i) opts)"
    have old: "\<forall>n \<in> set (story_nodes db). StoryNode_id n \<noteq> ?i"
      using 1(2) by (auto simp: fresh_ids_def list_all_iff)
    have new: "\<forall>n \<in> set ?children. StoryNode_id n \<noteq> ?i"
      by (fastforce dest: id_bounds(2))
    show ?thesis
      using True add ih
      by (simp add: set_options_def map_other_ids [OF old] map_other_ids [OF new])
  qed
next
  case (2 db sid options_list)
  then show ?case by simp
next
  case (3 db sid t next_node rest options_list)
  let ?i = "next_node_id db"
  let ?rows = "node_rows sid ?i next_node False"
  let ?db1 = "db\<lparr>story_nodes := story_nodes db @ ?rows, next_node_id := ?i + length ?rows\<rparr>"
  have child: "process_story_node db sid next_node False = (?db1, hd ?rows)"
    using 3(1) 3(3) by simp
  have fresh1: "fresh_ids ?db1"
    using 3(3) by (rule fresh_ids_node_rows)
  have hd_id: "StoryNode_id (hd ?rows) = ?i"
    by (cases next_node) simp
  have ih: "process_options ?db1 sid rest (options_list @ [\<lparr>option_text = t, node_id = StoryNode_id (hd ?rows)\<rparr>]) =
      (?db1\<lparr>story_nodes := story_nodes ?db1 @ snd (option_rows sid (next_node_id ?db1) rest),
          next_node_id := next_node_id ?db1 + length (snd (option_rows sid (next_node_id ?db1) rest))\<rparr>,
       (options_list @ [\<lparr>option_text = t, node_id = StoryNode_id (hd ?rows)\<rparr>]) @ fst (option_rows sid (next_node_id ?db1) rest))"
    by (intro 3(2) [OF child [symmetric] refl fresh1])
  show ?case
    using child ih hd_id
    by (simp add: Let_def split: prod.splits)
qed

lemma hd_node_rows:
  "hd (node_rows sid i nd r) =
     \<lparr>StoryNode_id = i, story_id = sid, StoryNode_content = content nd, is_root = r,
       is_ending = isEnding nd, is_winning_ending = isWinningEnding nd,
       StoryNode_options =
         (if \<not> isEnding nd \<and> options nd \<noteq> [] then fst (option_rows sid (i + 1) (options nd))
          else [])\<rparr>"
  by (cases nd) simp

lemma node_rows_Cons:
  "node_rows sid i nd r = hd (node_rows sid i nd r) # tl (node_rows sid i nd r)"
  by (cases nd) simp

lemma option_rows_Cons:
  "option_rows sid i (StoryOptionLLM t next_node # rest) =
     (\<lparr>option_text = t, node_id = i\<rparr>
        # fst (option_rows sid (i + length (node_rows sid i next_node False)) rest),
      node_rows sid i next_node False
        @ snd (option_rows sid (i + length (node_rows sid i next_node False)) rest))"
  by (simp add: Let_def split: prod.splits)

lemma length_rows_leaves:
  "endings_are_leaves nd \<Longrightarrow> length (node_rows sid i nd r) = count_nodes nd"
  "option_endings_are_leaves opts \<Longrightarrow> length (snd (option_rows sid i opts)) = count_option_nodes opts"
proof (induction sid i nd r and sid i opts rule: node_rows_option_rows.induct)
  case (1 sid i c e w opts r)
  then show ?case by auto
next
  case (2 sid i)
  then show ?case by simp
next
  case (3 sid i t next_node rest)
  have "length (node_rows sid i next_node False) = count_nodes next_node"
    using 3(1,3) by simp
  moreover have "length (snd (option_rows sid (i + length (node_rows sid i next_node False)) rest))
      = count_option_nodes rest"
    using 3(2) [OF refl] 3(3) by simp
  ultimately show ?case
    by (simp only: option_rows_Cons snd_conv length_append count_nodes.simps count_option_nodes.simps)
qed


lemma persisted_rows:
  "endings_are_leaves nd \<Longrightarrow> set (node_rows sid i nd r) \<subseteq> S \<Longrightarrow>
   (\<forall>n \<in> S. filter (\<lambda>m. StoryNode_id m = StoryNode_id n) all = [n]) \<Longrightarrow>
   persisted_as all i nd"
  "option_endings_are_leaves opts \<Longrightarrow> set (snd (option_rows sid i opts)) \<subseteq> S \<Longrightarrow>
   (\<forall>n \<in> S. filter (\<lambda>m. StoryNode_id m = StoryNode_id n) all = [n]) \<Longrightarrow>
   options_persisted_as all (fst (option_rows sid i opts)) opts"
proof (induction sid i nd r and sid i opts rule: node_rows_option_rows.induct)
  case (1 sid i c e w opts r)
  let ?nd = "StoryNodeLLM c e w opts"
  let ?n = "hd (node_rows sid i ?nd r)"
  have "?n \<in> set (node_rows sid i ?nd r)"
    by simp
  then have "?n \<in> S"
    using "1.prems"(2) by blast
  then have "filter (\<lambda>m. StoryNode_id m = StoryNode_id ?n) all = [?n]"
    using "1.prems"(3) by blast
  then have f: "filter (\<lambda>m. StoryNode_id m = i) all = [?n]"
    by simp
  show ?case
  proof (cases "\<not> e \<and> opts \<noteq> []")
    case True
    have sub: "set (snd (option_rows sid (i + 1) opts)) \<subseteq> S"
      using True "1.prems"(2) by auto
    have "options_persisted_as all (fst (option_rows sid (i + 1) opts)) opts"
      using True "1.prems" sub by (intro "1.IH") auto
    then show ?thesis
      using True f by simp
  next
    case False
    then have "opts = []"
      using "1.prems"(1) by auto
    then show ?thesis
      using f by simp
  qed
next
  case (2 sid i)
  then show ?case by simp
next
  case (3 sid i t next_node rest)
  let ?rows = "node_rows sid i next_node False"
  have sub: "set ?rows \<subseteq> S" "set (snd (option_rows sid (i + length ?rows) rest)) \<subseteq> S"
    using "3.prems"(2) by (simp_all only: option_rows_Cons snd_conv set_append Un_subset_iff)
  have p1: "persisted_as all i next_node"
    using "3.prems" sub(1) by (intro "3.IH"(1)) auto
  have p2: "options_persisted_as all (fst (option_rows sid (i + length ?rows) rest)) rest"
    using "3.prems" sub(2) by (intro "3.IH"(2) [OF refl]) auto
  show ?case
    using p1 p2 by (simp only: option_rows_Cons fst_conv options_persisted_as.simps
        option_entry.simps simp_thms)
qed

lemma filter_unique:
  "distinct (map f xs) \<Longrightarrow> x \<in> set xs \<Longrightarrow> filter (\<lambda>m. f m = f x) xs = [x]"
proof (induction xs)
  case Nil
  then show ?case by simp
next
  case (Cons a xs)
  show ?case
  proof (cases "a = x")
    case True
    have "f x \<notin> f ` set xs"
      using Cons.prems(1) True by simp
    then have "\<forall>m \<in> set xs. \<not> f m = f x"
      by (metis imageI)
    then have "filter (\<lambda>m. f m = f x) xs = []"
      by (simp add: filter_empty_conv)
    then show ?thesis using True by simp
  next
    case False
    then have x: "x \<in> set xs" using Cons.prems(2) by simp
    then have "f a \<noteq> f x"
      using Cons.prems(1) by auto
    then show ?thesis
      using Cons x by simp
  qed
qed

lemma distinct_ids_rows: "distinct (map StoryNode_id (node_rows sid i nd r))"
  unfolding ids_rows(1) by simp


lemma options_only_open:
  "n \<in> set (node_rows sid i nd r) \<Longrightarrow> StoryNode_options n \<noteq> [] \<Longrightarrow> \<not> is_ending n"
  "n \<in> set (snd (option_rows sid i opts)) \<Longrightarrow> StoryNode_options n \<noteq> [] \<Longrightarrow> \<not> is_ending n"
proof (induction sid i nd r and sid i opts rule: node_rows_option_rows.induct)
  case (1 sid i c e w opts r)
  show ?case
  proof (cases "\<not> e \<and> opts \<noteq> []")
    case True
    then show ?thesis
      using "1.prems" "1.IH" by auto
  next
    case False
    then show ?thesis
      using "1.prems" by auto
  qed
next
  case (2 sid i)
  then show ?case by simp
next
  case (3 sid i t next_node rest)
  have "n \<in> set (node_rows sid i next_node False) \<or>
        n \<in> set (snd (option_rows sid (i + length (node_rows sid i next_node False)) rest))"
    using "3.prems"(1) by (simp only: option_rows_Cons snd_conv set_append Un_iff)
  then show ?case
    using "3.IH"(1) "3.IH"(2) [OF refl] "3.prems"(2) by blast
qed

lemma root_row_only:
  "n \<in> set (node_rows sid i nd r) \<Longrightarrow> is_root n \<Longrightarrow> r \<and> n = hd (node_rows sid i nd r)"
  "n \<in> set (snd (option_rows sid i opts)) \<Longrightarrow> \<not> is_root n"
proof (induction sid i nd r and sid i opts rule: node_rows_option_rows.induct)
  case (1 sid i c e w opts r)
  show ?case
  proof (cases "\<not> e \<and> opts \<noteq> []")
    case True
    then show ?thesis
      using "1.prems" "1.IH" by auto
  next
    case False
    then show ?thesis
      using "1.prems" by auto
  qed
next
  case (2 sid i)
  then show ?case by simp
next
  case (3 sid i t next_node rest)
  have "n \<in> set (node_rows sid i next_node False) \<or>
        n \<in> set (snd (option_rows sid (i + length (node_rows sid i next_node False)) rest))"
    using "3.prems"(1) by (simp only: option_rows_Cons snd_conv set_append Un_iff)
  then show ?case
    using "3.IH"(1) "3.IH"(2) [OF refl] by blast
qed

lemma rows_story_id:
  "n \<in> set (node_rows sid i nd r) \<Longrightarrow> story_id n = sid"
  "n \<in> set (snd (option_rows sid i opts)) \<Longrightarrow> story_id n = sid"
proof (induction sid i nd r and sid i opts rule: node_rows_option_rows.induct)
  case (1 sid i c e w opts r)
  show ?case
  proof (cases "\<not> e \<and> opts \<noteq> []")
    case True
    then show ?thesis
      using "1.prems" "1.IH" by auto
  next
    case False
    then show ?thesis
      using "1.prems" by auto
  qed
next
  case (2 sid i)
  then show ?case by simp
next
  case (3 sid i t next_node rest)
  have "n \<in> set (node_rows sid i next_node False) \<or>
        n \<in> set (snd (option_rows sid (i + length (node_rows sid i next_node False)) rest))"
    using "3.prems"(1) by (simp only: option_rows_Cons snd_conv set_append Un_iff)
  then show ?case
    using "3.IH"(1) "3.IH"(2) [OF refl] by blast
qed

lemma generate_story_rows:
  assumes "fresh_ids db"
  shows "generate_story env db sess theme =
     (let structure = story_structure env theme;
          story_db = \<lparr>Story_id = next_story_id db, Story_title = title structure, session_id = sess\<rparr>;
          rows = node_rows (next_story_id db) (next_node_id db) (rootNode structure) True
      in (db\<lparr>stories := stories db @ [story_db],
             story_nodes := story_nodes db @ rows,
             next_story_id := next_story_id db + 1,
             next_node_id := next_node_id db + length rows,
             committed_stories := stories db @ [story_db],
             committed_story_nodes := story_nodes db @ rows\<rparr>,
          story_db))"
proof -
  let ?story = "\<lparr>Story_id = next_story_id db, Story_title = title (story_structure env theme),
     session_id = sess\<rparr>"
  let ?db1 = "db\<lparr>stories := stories db @ [?story], next_story_id := next_story_id db + 1\<rparr>"
  have add: "add_story db (title (story_structure env theme)) sess = (?db1, ?story)"
    by (simp add: add_story_def Let_def)
  have fresh1: "fresh_ids ?db1"
    using assms by (simp add: fresh_ids_def)
  show ?thesis
    using add process_rows(1) [OF fresh1]
    by (simp add: generate_story_def Let_def commit_def)
qed

section \<open>Generated stories\<close>

lemma generate_story_single_ending:
  assumes "story_structure env theme = \<lparr>title = t, rootNode = StoryNodeLLM c True w []\<rparr>"
  shows "generate_story env db sess theme =
     (db\<lparr>stories := stories db @ [\<lparr>Story_id = next_story_id db, Story_title = t, session_id = sess\<rparr>],
         story_nodes := story_nodes db @
           [\<lparr>StoryNode_id = next_node_id db, story_id = next_story_id db, StoryNode_content = c,
              is_root = True, is_ending = True, is_winning_ending = w, StoryNode_options = []\<rparr>],
         next_story_id := next_story_id db + 1,
         next_node_id := next_node_id db + 1,
         committed_stories := stories db @ [\<lparr>Story_id = next_story_id db, Story_title = t, session_id = sess\<rparr>],
         committed_story_nodes := story_nodes db @
           [\<lparr>StoryNode_id = next_node_id db, story_id = next_story_id db, StoryNode_content = c,
              is_root = True, is_ending = True, is_winning_ending = w, StoryNode_options = []\<rparr>]\<rparr>,
      \<lparr>Story_id = next_story_id db, Story_title = t, session_id = sess\<rparr>)"
  using assms
  by (simp add: generate_story_def Let_def add_story_def add_node_def commit_def)

lemma validated_story:
  assumes "call_gemini_api (GOOGLE_API_KEY env) (requests_post env) (json_loads env)
             (full_prompt (STORY_PROMPT env) theme) = Inr response_text"
    and "json_loads env response_text = Inr json_data"
    and "model_validate env json_data = Inr validated"
  shows "story_structure env theme = validated"
  using assms by (simp add: story_structure_def)

lemmas example_eval =  example_environment_def text_response_def call_gemini_api_def
  read_response_def first_candidate_text_def

lemma fresh_example_session: "fresh_ids example_session"
  by (simp add: fresh_ids_def example_session_def)

lemma candidate_cave:
  "candidate cave_answer = Some cave_json"
  by (simp add: candidate_def str_find_def slice_def cave_json_def cave_answer_def)

lemma json_loads_cave: "json_loads_model cave_json = Inr ()"
  by (simp add: json_eval cave_json_def)

lemma call_cave:
  "call_gemini_api ''key'' (\<lambda>request. text_response cave_answer)
     json_loads_model prompt = Inr cave_json"
  by (simp add: example_eval extract_json_candidate candidate_cave json_loads_cave)

lemma candidate_long_text: "candidate long_text = None"
  by (simp add: candidate_def str_find_def long_text_def)

lemma json_loads_long_text: "json_loads_model long_text = Inl JSONDecodeError"
  by (simp add: json_eval long_text_def)

lemma call_long_text:
  "call_gemini_api ''key'' (\<lambda>request. text_response long_text) json_loads_model prompt
     = Inr long_text"
  by (simp add: example_eval extract_json_candidate candidate_long_text)

lemma story_structure_cave: "story_structure cave_environment theme = cave_story"
  by (simp add: story_structure_def cave_environment_def example_environment_def call_cave
      json_loads_cave)

lemma generate_story_cave:
  "story_nodes (fst (generate_story cave_environment example_session sess theme))
     = story_nodes example_session @
       [\<lparr>StoryNode_id = 2, story_id = 2, StoryNode_content = ''A cave.'', is_root = True,
          is_ending = False, is_winning_ending = False,
          StoryNode_options = [\<lparr>option_text = ''Enter'', node_id = 3\<rparr>,
            \<lparr>option_text = ''Leave'', node_id = 4\<rparr>]\<rparr>,
        \<lparr>StoryNode_id = 3, story_id = 2, StoryNode_content = ''Gold!'', is_root = False,
          is_ending = True, is_winning_ending = True, StoryNode_options = []\<rparr>,
        \<lparr>StoryNode_id = 4, story_id = 2, StoryNode_content = ''Home.'', is_root = False,
          is_ending = True, is_winning_ending = False, StoryNode_options = []\<rparr>]"
  unfolding generate_story_rows [OF fresh_example_session] Let_def story_structure_cave
  by (simp add: cave_story_def example_session_def)

text \<open>
  C4. When the network call returns a text of more than 500 characters that
  \<^verbatim>\<open>json.loads\<close> rejects, \<^verbatim>\<open>generate_story\<close> adds and commits one story titled with the
  theme as \<^verbatim>\<open>str.capitalize\<close> gives it and \<^verbatim>\<open>Story\<close>, and exactly one node for it: the root, an ending and a
  winning ending without options, whose content is the first 500 characters of the
  text. It returns the story.
\<close>

theorem generate_story_not_json:
  fixes db :: Session and env :: "('e, 'j, 'v) environment"
  defines "story \<equiv> \<lambda>theme sess. \<lparr>Story_id = next_story_id db,
      Story_title = capitalize env theme @ '' Story'', session_id = sess\<rparr>"
    and "node \<equiv> \<lambda>response_text. \<lparr>StoryNode_id = next_node_id db, story_id = next_story_id db,
      StoryNode_content = take 500 response_text, is_root = True, is_ending = True,
      is_winning_ending = True, StoryNode_options = []\<rparr>"
  assumes call: "call_gemini_api (GOOGLE_API_KEY env) (requests_post env) (json_loads env)
             (full_prompt (STORY_PROMPT env) theme) = Inr response_text"
    and rejected: "json_loads env response_text = Inl e"
    and long: "500 < length response_text"
  shows "generate_story env db sess theme =
     (db\<lparr>stories := stories db @ [story theme sess],
         story_nodes := story_nodes db @ [node response_text],
         next_story_id := next_story_id db + 1,
         next_node_id := next_node_id db + 1,
         committed_stories := stories db @ [story theme sess],
         committed_story_nodes := story_nodes db @ [node response_text]\<rparr>,
      story theme sess)
    \<and> length (StoryNode_content (node response_text)) = 500"
proof -
  have "story_structure env theme =
      \<lparr>title = capitalize env theme @ '' Story'',
       rootNode = StoryNodeLLM (take 500 response_text) True True []\<rparr>"
    using call rejected by (simp add: story_structure_def fallback_story_def)
  then have "generate_story env db sess theme =
     (db\<lparr>stories := stories db @ [story theme sess],
         story_nodes := story_nodes db @ [node response_text],
         next_story_id := next_story_id db + 1,
         next_node_id := next_node_id db + 1,
         committed_stories := stories db @ [story theme sess],
         committed_story_nodes := story_nodes db @ [node response_text]\<rparr>,
      story theme sess)"
    unfolding story_def node_def by (rule generate_story_single_ending)
  moreover have "length (StoryNode_content (node response_text)) = 500"
    using long by (simp add: node_def)
  ultimately show ?thesis by (rule conjI)
qed

theorem generate_story_not_json_witness:
  "call_gemini_api ''key'' (\<lambda>request. text_response long_text) json_loads_model
     (full_prompt ''Write a branching story.'' ''sPACE opera'') = Inr long_text \<and>
   json_loads_model long_text = Inl JSONDecodeError \<and>
   500 < length long_text \<and>
   snd (generate_story (example_environment (text_response long_text) cave_story)
          example_session ''session-1'' ''sPACE opera'')
     = \<lparr>Story_id = 2, Story_title = ''Space opera Story'', session_id = ''session-1''\<rparr> \<and>
   committed_story_nodes (fst (generate_story (example_environment (text_response long_text) cave_story)
          example_session ''session-1'' ''sPACE opera''))
     = story_nodes example_session @
       [\<lparr>StoryNode_id = 2, story_id = 2, StoryNode_content = take 500 long_text, is_root = True,
          is_ending = True, is_winning_ending = True, StoryNode_options = []\<rparr>] \<and>
   length (take 500 long_text) = 500"
  using generate_story_not_json [where env = "example_environment (text_response long_text) cave_story"
      and theme = "''sPACE opera''" and response_text = long_text and e = JSONDecodeError
      and db = example_session and sess = "''session-1''"]
    call_long_text json_loads_long_text
  by (simp add: example_environment_def example_session_def upper_char_def lower_char_def
      long_text_def)

text \<open>
  C5. When the network call raises an exception \<open>e\<close>, \<^verbatim>\<open>generate_story\<close> raises nothing:
  it adds and commits one story titled \<^verbatim>\<open>Error:\<close>, the theme as \<^verbatim>\<open>str.capitalize\<close> gives
  it and \<^verbatim>\<open>Story\<close>,
  and exactly one node for it: the root, an ending that is not a winning ending, without
  options, whose content ends with the message of \<open>e\<close>. It returns the story.
\<close>

theorem generate_story_call_error:
  fixes db :: Session and env :: "('e, 'j, 'v) environment"
  defines "story \<equiv> \<lambda>theme sess. \<lparr>Story_id = next_story_id db,
      Story_title = ''Error: '' @ capitalize env theme @ '' Story'', session_id = sess\<rparr>"
    and "node \<equiv> \<lambda>e. \<lparr>StoryNode_id = next_node_id db, story_id = next_story_id db,
      StoryNode_content = ''We encountered an error while generating your story: '' @ str_exn e,
      is_root = True, is_ending = True, is_winning_ending = False, StoryNode_options = []\<rparr>"
  assumes call: "call_gemini_api (GOOGLE_API_KEY env) (requests_post env) (json_loads env)
             (full_prompt (STORY_PROMPT env) theme) = Inl e"
  shows "generate_story env db sess theme =
     (db\<lparr>stories := stories db @ [story theme sess],
         story_nodes := story_nodes db @ [node e],
         next_story_id := next_story_id db + 1,
         next_node_id := next_node_id db + 1,
         committed_stories := stories db @ [story theme sess],
         committed_story_nodes := story_nodes db @ [node e]\<rparr>,
      story theme sess)"
proof -
  have "story_structure env theme =
      \<lparr>title = ''Error: '' @ capitalize env theme @ '' Story'',
       rootNode = StoryNodeLLM (''We encountered an error while generating your story: '' @ str_exn e)
         True False []\<rparr>"
    using call by (simp add: story_structure_def error_story_def)
  then show ?thesis
    unfolding story_def node_def by (rule generate_story_single_ending)
qed

theorem generate_story_call_error_witness:
  "call_gemini_api ''key'' (\<lambda>request. Raised ''Connection refused'') json_loads_model
     (full_prompt ''Write a branching story.'' ''sPACE opera'')
     = Inl (Exception ''Network error when calling Gemini API: Connection refused'') \<and>
   snd (generate_story (example_environment (Raised ''Connection refused'') cave_story)
          example_session ''session-1'' ''sPACE opera'')
     = \<lparr>Story_id = 2, Story_title = ''Error: Space opera Story'', session_id = ''session-1''\<rparr> \<and>
   committed_story_nodes (fst (generate_story (example_environment (Raised ''Connection refused'') cave_story)
          example_session ''session-1'' ''sPACE opera''))
     = story_nodes example_session @
       [\<lparr>StoryNode_id = 2, story_id = 2,
          StoryNode_content = ''We encountered an error while generating your story: ''
            @ ''Network error when calling Gemini API: Connection refused'',
          is_root = True, is_ending = True, is_winning_ending = False, StoryNode_options = []\<rparr>]"
  using generate_story_call_error [where env = "example_environment (Raised ''Connection refused'') cave_story"
      and theme = "''sPACE opera''"
      and e = "Exception ''Network error when calling Gemini API: Connection refused''"
      and db = example_session and sess = "''session-1''"]
  by (simp add: example_environment_def example_session_def upper_char_def lower_char_def
      call_gemini_api_def)

text \<open>
  C6. In a session with fresh identifiers, when the network call returns a text that
  decodes and validates to a description whose root is not an ending and has exactly
  two options, each leading to an ending, \<^verbatim>\<open>generate_story\<close> adds and commits exactly
  three nodes: the root with
  \<^verbatim>\<open>is_root\<close> set, and the two children, each an ending that is not a root. The
  options list of the root has exactly the two entries, with the texts of the described
  options and the identifiers of the two children, in the order of the description.
\<close>

theorem generate_story_two_endings:
  fixes db :: Session
  defines "i \<equiv> next_node_id db"
    and "s \<equiv> next_story_id db"
  defines "root_row \<equiv> \<lambda>c w t1 t2. \<lparr>StoryNode_id = i, story_id = s, StoryNode_content = c, is_root = True,
      is_ending = False, is_winning_ending = w,
      StoryNode_options = [\<lparr>option_text = t1, node_id = i + 1\<rparr>, \<lparr>option_text = t2, node_id = i + 2\<rparr>]\<rparr>"
    and "child_row \<equiv> \<lambda>k c w. \<lparr>StoryNode_id = i + k, story_id = s, StoryNode_content = c,
      is_root = False, is_ending = True, is_winning_ending = w, StoryNode_options = []\<rparr>"
  assumes "fresh_ids db"
    and "call_gemini_api (GOOGLE_API_KEY env) (requests_post env) (json_loads env)
             (full_prompt (STORY_PROMPT env) theme) = Inr response_text"
    and "json_loads env response_text = Inr json_data"
    and "model_validate env json_data = Inr validated"
    and "rootNode validated = StoryNodeLLM c False w
           [StoryOptionLLM t1 (StoryNodeLLM c1 True w1 opts1),
            StoryOptionLLM t2 (StoryNodeLLM c2 True w2 opts2)]"
  shows "story_nodes (fst (generate_story env db sess theme)) =
           story_nodes db @ [root_row c w t1 t2, child_row 1 c1 w1, child_row 2 c2 w2]
       \<and> committed_story_nodes (fst (generate_story env db sess theme)) =
           story_nodes db @ [root_row c w t1 t2, child_row 1 c1 w1, child_row 2 c2 w2]
       \<and> snd (generate_story env db sess theme) =
           \<lparr>Story_id = s, Story_title = title validated, session_id = sess\<rparr>"
proof -
  have "story_structure env theme = validated"
    using assms(6-8) by (rule validated_story)
  then show ?thesis
    using assms(9)
    by (simp add: generate_story_rows [OF assms(5)] Let_def root_row_def child_row_def i_def s_def)
qed

theorem generate_story_two_endings_witness:
  "fresh_ids example_session \<and>
   call_gemini_api (GOOGLE_API_KEY cave_environment) (requests_post cave_environment)
     (json_loads cave_environment) (full_prompt (STORY_PROMPT cave_environment) ''caves'')
     = Inr cave_json \<and>
   json_loads cave_environment cave_json = Inr () \<and>
   model_validate cave_environment () = Inr cave_story \<and>
   story_nodes (fst (generate_story cave_environment example_session ''session-1'' ''caves''))
     = story_nodes example_session @
       [\<lparr>StoryNode_id = 2, story_id = 2, StoryNode_content = ''A cave.'', is_root = True,
          is_ending = False, is_winning_ending = False,
          StoryNode_options = [\<lparr>option_text = ''Enter'', node_id = 3\<rparr>,
            \<lparr>option_text = ''Leave'', node_id = 4\<rparr>]\<rparr>,
        \<lparr>StoryNode_id = 3, story_id = 2, StoryNode_content = ''Gold!'', is_root = False,
          is_ending = True, is_winning_ending = True, StoryNode_options = []\<rparr>,
        \<lparr>StoryNode_id = 4, story_id = 2, StoryNode_content = ''Home.'', is_root = False,
          is_ending = True, is_winning_ending = False, StoryNode_options = []\<rparr>]"
  using generate_story_two_endings [of example_session cave_environment
      "''caves''" cave_json "()" cave_story "''A cave.''" False "''Enter''" "''Gold!''" True "[]"
      "''Leave''" "''Home.''" False "[]" "''session-1''"]
    fresh_example_session call_cave json_loads_cave generate_story_cave
  by (simp add: cave_environment_def example_environment_def cave_story_def)

text \<open>
  C7, as the code has it. For a description in which no ending node carries options, one
  call of \<^verbatim>\<open>_process_story_node\<close> in a session with fresh identifiers adds exactly as many rows as the description has
  nodes, with identifiers that are all different, and the rows hold the described tree:
  under the identifier of the returned node, each described node is one row with the
  described content and flags and with its described options in order.
\<close>

theorem process_story_node_each_node_once:
  assumes "fresh_ids db" and "endings_are_leaves nd"
    and "process_story_node db sid nd r = (db', node)"
  shows "\<exists>rows. story_nodes db' = story_nodes db @ rows \<and>
           length rows = count_nodes nd \<and>
           distinct (map StoryNode_id rows) \<and>
           persisted_as (story_nodes db') (StoryNode_id node) nd"
proof -
  let ?i = "next_node_id db"
  let ?rows = "node_rows sid ?i nd r"
  have db': "story_nodes db' = story_nodes db @ ?rows" and node: "node = hd ?rows"
    using process_rows(1) [OF assms(1), of sid nd r] assms(3) by auto
  have old: "\<forall>m \<in> set (story_nodes db). StoryNode_id m < ?i"
    using assms(1) by (simp add: fresh_ids_def list_all_iff)
  have uniq: "\<forall>n \<in> set ?rows.
      filter (\<lambda>m. StoryNode_id m = StoryNode_id n) (story_nodes db @ ?rows) = [n]"
  proof
    fix n assume n: "n \<in> set ?rows"
    then have "?i \<le> StoryNode_id n"
      using id_bounds(1) by blast
    then have "\<forall>m \<in> set (story_nodes db). \<not> StoryNode_id m = StoryNode_id n"
      using old by fastforce
    then have "filter (\<lambda>m. StoryNode_id m = StoryNode_id n) (story_nodes db) = []"
      by (simp add: filter_empty_conv)
    moreover have "filter (\<lambda>m. StoryNode_id m = StoryNode_id n) ?rows = [n]"
      using distinct_ids_rows n by (rule filter_unique)
    ultimately show "filter (\<lambda>m. StoryNode_id m = StoryNode_id n) (story_nodes db @ ?rows) = [n]"
      by simp
  qed
  have "persisted_as (story_nodes db @ ?rows) ?i nd"
    using assms(2) subset_refl uniq by (rule persisted_rows(1))
  moreover have "StoryNode_id node = ?i"
    by (simp add: node hd_node_rows)
  ultimately show ?thesis
    using db' length_rows_leaves(1) [OF assms(2)] distinct_ids_rows by auto
qed

theorem process_story_node_each_node_once_witness:
  "fresh_ids example_session \<and> endings_are_leaves branching_node \<and>
   count_nodes branching_node = 4 \<and>
   map StoryNode_id (story_nodes (fst (process_story_node example_session 2 branching_node True)))
     = map StoryNode_id (story_nodes example_session) @ [2, 3, 4, 5] \<and>
   persisted_as (story_nodes (fst (process_story_node example_session 2 branching_node True))) 2
     branching_node"
  using process_story_node_each_node_once [of example_session branching_node 2 True
      "fst (process_story_node example_session 2 branching_node True)"
      "snd (process_story_node example_session 2 branching_node True)"]
    fresh_example_session
  by (simp add: branching_node_def example_session_def add_node_def set_options_def Let_def)

text \<open>
  C7 as stated fails: a description of two nodes whose root is an ending with one option.
  The call adds the row of the root only.
\<close>

theorem process_story_node_ending_root_counterexample:
  "count_nodes ending_with_options = 2 \<and>
   story_nodes (fst (process_story_node example_session 2 ending_with_options True))
     = story_nodes example_session @
       [\<lparr>StoryNode_id = 2, story_id = 2, StoryNode_content = ''The end.'', is_root = True,
          is_ending = True, is_winning_ending = True, StoryNode_options = []\<rparr>]"
  by (simp add: ending_with_options_def example_session_def add_node_def Let_def)

text \<open>
  C10. In a session with fresh identifiers, the row that \<^verbatim>\<open>_process_story_node\<close> adds
  for a description with \<^verbatim>\<open>isEnding\<close> set has an empty options list and is the only row the call adds, whatever options the
  description carries; and among all rows that a call adds, only rows that are not
  endings have options.
\<close>

theorem process_story_node_ending:
  assumes "fresh_ids db" and "process_story_node db sid nd r = (db', node)"
  shows "\<exists>rows. story_nodes db' = story_nodes db @ rows \<and>
           (isEnding nd \<longrightarrow> rows = [node] \<and> is_ending node \<and> StoryNode_options node = []) \<and>
           (\<forall>n \<in> set rows. StoryNode_options n \<noteq> [] \<longrightarrow> \<not> is_ending n)"
proof -
  let ?rows = "node_rows sid (next_node_id db) nd r"
  have db': "story_nodes db' = story_nodes db @ ?rows" and node: "node = hd ?rows"
    using process_rows(1) [OF assms(1), of sid nd r] assms(2) by auto
  have "isEnding nd \<longrightarrow> ?rows = [node] \<and> is_ending node \<and> StoryNode_options node = []"
    unfolding node by (cases nd) simp
  moreover have "\<forall>n \<in> set ?rows. StoryNode_options n \<noteq> [] \<longrightarrow> \<not> is_ending n"
    using options_only_open(1) by blast
  ultimately show ?thesis
    using db' by blast
qed

theorem process_story_node_ending_witness:
  "fresh_ids example_session \<and> isEnding ending_with_options \<and>
   options ending_with_options \<noteq> [] \<and>
   process_story_node example_session 2 ending_with_options True
     = (example_session\<lparr>story_nodes := story_nodes example_session @
           [\<lparr>StoryNode_id = 2, story_id = 2, StoryNode_content = ''The end.'', is_root = True,
              is_ending = True, is_winning_ending = True, StoryNode_options = []\<rparr>],
          next_node_id := 3\<rparr>,
        \<lparr>StoryNode_id = 2, story_id = 2, StoryNode_content = ''The end.'', is_root = True,
          is_ending = True, is_winning_ending = True, StoryNode_options = []\<rparr>)"
  using process_story_node_ending [of example_session 2 ending_with_options True
      "fst (process_story_node example_session 2 ending_with_options True)"
      "snd (process_story_node example_session 2 ending_with_options True)"]
    fresh_example_session
  by (simp add: ending_with_options_def example_session_def add_node_def Let_def)

text \<open>
  C9. Of the nodes that one call of \<^verbatim>\<open>generate_story\<close> adds and commits in a session
  with fresh identifiers, whatever the network call and the decoding give, exactly one
  has \<^verbatim>\<open>is_root\<close> set: the first, made from the root of the description. Every other
  node of the call, each made for the next node of an option, has it unset. All of them
  belong to the returned story.
\<close>

theorem generate_story_one_root:
  assumes "fresh_ids db" and "generate_story env db sess theme = (db', story)"
  shows "\<exists>root rest. story_nodes db' = story_nodes db @ root # rest \<and>
           committed_story_nodes db' = story_nodes db' \<and>
           is_root root \<and>
           StoryNode_content root = content (rootNode (story_structure env theme)) \<and>
           filter is_root (root # rest) = [root] \<and>
           (\<forall>n \<in> set rest. \<not> is_root n) \<and>
           (\<forall>n \<in> set (root # rest). story_id n = Story_id story)"
proof -
  let ?nd = "rootNode (story_structure env theme)"
  let ?rows = "node_rows (next_story_id db) (next_node_id db) ?nd True"
  have g: "story_nodes db' = story_nodes db @ ?rows" "committed_story_nodes db' = story_nodes db @ ?rows"
    "Story_id story = next_story_id db"
    using generate_story_rows [OF assms(1), of env sess theme] assms(2)
    by (auto simp: Let_def)
  have split: "?rows = hd ?rows # tl ?rows"
    by (rule node_rows_Cons)
  have rest: "\<forall>n \<in> set (tl ?rows). \<not> is_root n"
  proof
    fix n assume n: "n \<in> set (tl ?rows)"
    show "\<not> is_root n"
    proof
      assume "is_root n"
      moreover have "n \<in> set ?rows"
        using n split by (metis list.set_intros(2))
      ultimately have "n = hd ?rows"
        using root_row_only(1) by blast
      moreover have "distinct (map StoryNode_id (hd ?rows # tl ?rows))"
        using distinct_ids_rows [of "next_story_id db" "next_node_id db" ?nd True] split by simp
      ultimately show False
        using n by auto
    qed
  qed
  then have "filter is_root (tl ?rows) = []"
    by (simp add: filter_empty_conv)
  then have f: "filter is_root (hd ?rows # tl ?rows) = [hd ?rows]"
    by (simp add: hd_node_rows)
  have sid: "\<forall>n \<in> set (hd ?rows # tl ?rows). story_id n = Story_id story"
    using rows_story_id(1) [of _ "next_story_id db" "next_node_id db" ?nd True] split g(3)
    by metis
  have "story_nodes db' = story_nodes db @ hd ?rows # tl ?rows"
    using g(1) split by simp
  moreover have "committed_story_nodes db' = story_nodes db'"
    using g by simp
  moreover have "is_root (hd ?rows)" "StoryNode_content (hd ?rows) = content ?nd"
    by (simp_all add: hd_node_rows)
  ultimately show ?thesis
    using f rest sid by blast
qed

theorem generate_story_one_root_witness:
  "fresh_ids example_session \<and>
   map is_root (story_nodes (fst (generate_story cave_environment example_session
       ''session-2'' ''caves'')))
     = map is_root (story_nodes example_session) @ [True, False, False]"
  using generate_story_one_root [of example_session cave_environment "''session-2''" "''caves''"
      "fst (generate_story cave_environment example_session ''session-2'' ''caves'')"
      "snd (generate_story cave_environment example_session ''session-2'' ''caves'')"]
    fresh_example_session generate_story_cave
  by simp

end
